theory Spec2Isabelle
  imports
    Main
    "HOL-Library.Word"
    "HOL-Library.Signed_Division"
    "HOL-Library.Sublist"
    "HOL-Library.Char_ord"
    "HOL-Library.List_Lexorder"
begin

chapter \<open>The static file handlers and the Cache-Control builder of ozzo-routing\<close>

text \<open>
  A shallow embedding of package \<open>file\<close> (\<open>Server\<close>, \<open>Content\<close>, \<open>serveFile\<close>,
  \<open>parsePathMap\<close>, \<open>matchPath\<close>, \<open>negotiateEncodings\<close>, \<open>containsDotDot\<close>,
  \<open>compressionDir.Open\<close>, \<open>ServerOptions.Merge\<close>, \<open>getServerOptions\<close>) and of
  \<open>Options.BuildHeaderValues\<close> of package \<open>caching\<close>. The definitions come first, each
  under the name it has in the source; the theorems follow. What the Go standard
  library does (\<open>strings\<close>, \<open>sort\<close>, \<open>fmt\<close>, \<open>time\<close>) is written out as functions of its
  own; the file system and \<open>path/filepath\<close> are parameters.
\<close>

section \<open>Package file: the data model\<close>

text \<open>
  Go strings are byte sequences: \<^typ>\<open>string\<close>. An \<open>Encoding\<close> is a string
  (\<open>type Encoding string\<close>), with the two constants \<open>Brotli\<close> and \<open>GZip\<close>.
\<close>

type_synonym Encoding = string

definition Brotli :: Encoding where
  "Brotli = ''br''"

definition GZip :: Encoding where
  "GZip = ''gzip''"

text \<open>
  What a handler reads of \<open>routing.Context\<close>: the request's method, its URL path and
  \<open>Request.Header.Get("Accept-Encoding")\<close> (the empty string when the header is absent).
\<close>

record Request =
  Method :: string
  URLPath :: string
  AcceptEncoding :: string

text \<open>
  \<open>ServerOptions\<close>. A Go string field is unset when it is \<open>""\<close>; the function, the
  slice and the interface fields are unset when they are \<open>nil\<close>, which is \<open>None\<close> here
  (an empty but non-nil slice is \<open>Some []\<close>). The type of \<open>fs.FS\<close> values is a parameter.
\<close>

record 'fs ServerOptions =
  RootPath :: string
  IndexFile :: string
  CatchAllFile :: string
  Allow :: "(Request \<Rightarrow> string \<Rightarrow> bool) option"
  Compression :: "Encoding list option"
  FS :: "'fs option"

text \<open>The zero value \<open>var options ServerOptions\<close>.\<close>

definition zeroServerOptions :: "'fs ServerOptions" where
  "zeroServerOptions =
     \<lparr>RootPath = [], IndexFile = [], CatchAllFile = [], Allow = None,
      Compression = None, FS = None\<rparr>"

section \<open>ServerOptions.Merge and getServerOptions\<close>

definition Merge :: "'fs ServerOptions \<Rightarrow> 'fs ServerOptions \<Rightarrow> 'fs ServerOptions" where
  "Merge t other =
     (let new = t;
          new = (if Allow other \<noteq> None then new\<lparr>Allow := Allow other\<rparr> else new);
          new = (if CatchAllFile other \<noteq> [] then new\<lparr>CatchAllFile := CatchAllFile other\<rparr> else new);
          new = (if Compression other \<noteq> None then new\<lparr>Compression := Compression other\<rparr> else new);
          new = (if IndexFile other \<noteq> [] then new\<lparr>IndexFile := IndexFile other\<rparr> else new);
          new = (if RootPath other \<noteq> [] then new\<lparr>RootPath := RootPath other\<rparr> else new);
          new = (if FS other \<noteq> None then new\<lparr>FS := FS other\<rparr> else new)
      in new)"

text \<open>The loop \<open>for _, opt := range opts { options = options.Merge(opt) }\<close>.\<close>

fun mergeAll :: "'fs ServerOptions \<Rightarrow> 'fs ServerOptions list \<Rightarrow> 'fs ServerOptions" where
  "mergeAll options [] = options"
| "mergeAll options (opt # opts) = mergeAll (Merge options opt) opts"

text \<open>
  The process environment of package \<open>file\<close>: the package variable \<open>RootPath\<close> (the
  working directory read once by \<open>init\<close>), the two functions of \<open>path/filepath\<close> the
  package calls, the file system behind \<open>http.Dir(root).Open(name)\<close>, which gives
  the error's message or the opened file, and the two Unicode-aware functions of
  package \<open>strings\<close> that \<open>negotiateEncodings\<close> calls on the tokens of a header
  (\<open>strings.ToLower\<close> maps every Unicode letter to its lower case and rewrites invalid
  UTF-8, \<open>strings.TrimSpace\<close> trims every Unicode white space). All of these are
  parameters: the theorems hold for whatever they are.
\<close>

record FileInfo =
  IsDir :: bool
  ModTime :: int

record File =
  Stat :: "string + FileInfo"
  Body :: string

record Env =
  pkgRootPath :: string
  filepath_IsAbs :: "string \<Rightarrow> bool"
  filepath_Join :: "string \<Rightarrow> string \<Rightarrow> string"
  http_Dir_Open :: "string \<Rightarrow> string \<Rightarrow> string + File"
  strings_ToLower :: "string \<Rightarrow> string"
  strings_TrimSpace :: "string \<Rightarrow> string"

definition getServerOptions :: "Env \<Rightarrow> 'fs ServerOptions list \<Rightarrow> 'fs ServerOptions" where
  "getServerOptions env opts =
     (let options = mergeAll zeroServerOptions opts
      in if \<not> filepath_IsAbs env (RootPath options)
         then options\<lparr>RootPath := filepath_Join env (pkgRootPath env) (RootPath options)\<rparr>
         else options)"

text \<open>
  The words of the specification for a merged field: the value of the last option set
  of the sequence that sets the field, and the starting value when none sets it.
\<close>

definition lastSet :: "('o \<Rightarrow> 'v) \<Rightarrow> ('v \<Rightarrow> bool) \<Rightarrow> 'o \<Rightarrow> 'o list \<Rightarrow> 'v" where
  "lastSet field isSet a bs =
     (case filter (\<lambda>b. isSet (field b)) (rev bs) of [] \<Rightarrow> field a | b # _ \<Rightarrow> field b)"

section \<open>parsePathMap and matchPath\<close>

text \<open>
  A \<open>PathMap\<close> is a Go map from URL prefixes to file paths, here the list of its
  entries; a key is looked up with \<open>map_of\<close>, and a missing key reads as the zero
  value \<open>""\<close>. \<open>parsePathMap\<close> collects the keys in the map's iteration order, sorts
  them with \<open>sort.Strings\<close> (bytewise lexicographic order, the order of
  \<^typ>\<open>string\<close> here) and reads the targets in the sorted order. Sorting makes the
  iteration order irrelevant. A Go map holds every key once; no theorem below needs
  that of the list.
\<close>

type_synonym PathMap = "(string \<times> string) list"

definition pathMapIndex :: "PathMap \<Rightarrow> string \<Rightarrow> string" where
  "pathMapIndex pathMap s = (case map_of pathMap s of None \<Rightarrow> [] | Some v \<Rightarrow> v)"

definition parsePathMap :: "PathMap \<Rightarrow> string list \<times> string list" where
  "parsePathMap pathMap =
     (let from = sort (map fst pathMap);
          to = map (pathMapIndex pathMap) from
      in (from, to))"

text \<open>
  \<open>matchPath\<close>: the loop \<open>for i := len(from) - 1; i >= 0; i--\<close>. The first argument of
  \<open>matchPathLoop\<close> is \<open>i + 1\<close>. An index outside \<open>to\<close> panics in Go: \<open>None\<close>.
  \<open>strings.HasPrefix(path, prefix)\<close> is \<^const>\<open>prefix\<close>, and \<open>path[len(prefix):]\<close>
  is \<^const>\<open>drop\<close>.
\<close>

fun matchPathLoop :: "nat \<Rightarrow> string \<Rightarrow> string list \<Rightarrow> string list \<Rightarrow> (string \<times> bool) option" where
  "matchPathLoop 0 path from to = Some ([], False)"
| "matchPathLoop (Suc i) path from to =
     (let p = from ! i
      in if prefix p path
         then (if i < length to then Some (to ! i @ drop (length p) path, True) else None)
         else matchPathLoop i path from to)"

definition matchPath :: "string \<Rightarrow> string list \<Rightarrow> string list \<Rightarrow> (string \<times> bool) option" where
  "matchPath path from to = matchPathLoop (length from) path from to"

text \<open>The path mapper of the specification: \<open>Match\<close> on a table built by \<open>parsePathMap\<close>.\<close>

definition Match :: "PathMap \<Rightarrow> string \<Rightarrow> (string \<times> bool) option" where
  "Match pathMap path = (case parsePathMap pathMap of (from, to) \<Rightarrow> matchPath path from to)"

section \<open>containsDotDot\<close>

definition isSlashRune :: "char \<Rightarrow> bool" where
  "isSlashRune r = (r = CHR ''/'' \<or> r = CHR 0x5C)"

text \<open>\<open>strings.Contains\<close>: some suffix of the string starts with the substring.\<close>

fun Contains :: "string \<Rightarrow> string \<Rightarrow> bool" where
  "Contains [] substr = (substr = [])"
| "Contains (c # cs) substr = (prefix substr (c # cs) \<or> Contains cs substr)"

text \<open>
  \<open>strings.FieldsFunc\<close>: the maximal runs of characters that do not satisfy \<open>f\<close>, in
  order. \<open>cur\<close> is the field being read. Both separators are ASCII, and no byte of a
  multi-byte UTF-8 sequence is ASCII, so splitting the bytes is splitting the runes.
\<close>

fun fieldsLoop :: "(char \<Rightarrow> bool) \<Rightarrow> string \<Rightarrow> string \<Rightarrow> string list" where
  "fieldsLoop f cur [] = (if cur = [] then [] else [cur])"
| "fieldsLoop f cur (c # cs) =
     (if f c then (if cur = [] then fieldsLoop f [] cs else cur # fieldsLoop f [] cs)
      else fieldsLoop f (cur @ [c]) cs)"

definition FieldsFunc :: "string \<Rightarrow> (char \<Rightarrow> bool) \<Rightarrow> string list" where
  "FieldsFunc s f = fieldsLoop f [] s"

definition containsDotDot :: "string \<Rightarrow> bool" where
  "containsDotDot v =
     (if \<not> Contains v ''..'' then False
      else ''..'' \<in> set (FieldsFunc v isSlashRune))"

text \<open>
  The segments of a path, in the words of the specification: the parts between the
  delimiters, empty ones included. A path has a \<open>..\<close> segment when one part is \<open>..\<close>.
\<close>

fun segments :: "(char \<Rightarrow> bool) \<Rightarrow> string \<Rightarrow> string list" where
  "segments delim [] = [[]]"
| "segments delim (c # cs) =
     (if delim c then [] # segments delim cs
      else (case segments delim cs of [] \<Rightarrow> [[c]] | x # xs \<Rightarrow> (c # x) # xs))"

definition dotDotSegment :: "(char \<Rightarrow> bool) \<Rightarrow> string \<Rightarrow> bool" where
  "dotDotSegment delim v = (''..'' \<in> set (segments delim v))"

definition isSlash :: "char \<Rightarrow> bool" where
  "isSlash r = (r = CHR ''/'')"

section \<open>negotiateEncodings\<close>

text \<open>
  \<open>strings.Split(s, ",")\<close> for a separator of one byte: one part more than there are
  separators, so \<open>[""]\<close> for the empty string.
\<close>

fun Split :: "string \<Rightarrow> char \<Rightarrow> string list" where
  "Split [] sep = [[]]"
| "Split (c # cs) sep =
     (if c = sep then [] # Split cs sep
      else (case Split cs sep of [] \<Rightarrow> [[c]] | x # xs \<Rightarrow> (c # x) # xs))"

text \<open>The inner loop over the accepted tokens, and the outer loop over \<open>available\<close>.\<close>

fun negotiateAccepted :: "Env \<Rightarrow> Encoding \<Rightarrow> string list \<Rightarrow> Encoding list \<Rightarrow> Encoding list" where
  "negotiateAccepted env availEnc [] negotioated = negotioated"
| "negotiateAccepted env availEnc (accEnc # rest) negotioated =
     negotiateAccepted env availEnc rest
       (if availEnc = strings_TrimSpace env (strings_ToLower env accEnc)
        then negotioated @ [availEnc] else negotioated)"

fun negotiateAvailable :: "Env \<Rightarrow> Encoding list \<Rightarrow> string list \<Rightarrow> Encoding list \<Rightarrow> Encoding list" where
  "negotiateAvailable env [] acceptEncodings negotioated = negotioated"
| "negotiateAvailable env (availEnc # rest) acceptEncodings negotioated =
     negotiateAvailable env rest acceptEncodings
       (negotiateAccepted env availEnc acceptEncodings negotioated)"

definition negotiateEncodings :: "Env \<Rightarrow> Request \<Rightarrow> Encoding list \<Rightarrow> Encoding list" where
  "negotiateEncodings env c available =
     (if length available = 0 then []
      else let acceptEncodings = Split (AcceptEncoding c) CHR '',''
           in negotiateAvailable env available acceptEncodings [])"

text \<open>
  The client's accepted list, in the words of the specification: the header split on
  commas, each token lowercased and trimmed.
\<close>

definition acceptedTokens :: "Env \<Rightarrow> string \<Rightarrow> string list" where
  "acceptedTokens env header =
     map (\<lambda>accEnc. strings_TrimSpace env (strings_ToLower env accEnc)) (Split header CHR '','')"

text \<open>
  What the two functions of package \<open>strings\<close> do to a string of ASCII bytes (bytes
  below 128): \<open>ToLower\<close> lowers the letters \<open>A\<close> to \<open>Z\<close>, and \<open>TrimSpace\<close> trims tab, line
  feed, vertical tab, form feed, carriage return and space at both ends. These two
  functions are not the library's on other strings; \<open>asciiStrings env\<close> says that the
  library of \<open>env\<close> agrees with them on ASCII strings, as Go's does.
\<close>

definition ascii :: "string \<Rightarrow> bool" where
  "ascii s = list_all (\<lambda>ch. of_char ch < (128 :: nat)) s"

definition toLowerChar :: "char \<Rightarrow> char" where
  "toLowerChar c =
     (case map_of (zip ''ABCDEFGHIJKLMNOPQRSTUVWXYZ'' ''abcdefghijklmnopqrstuvwxyz'') c of
        None \<Rightarrow> c | Some l \<Rightarrow> l)"

definition asciiToLower :: "string \<Rightarrow> string" where
  "asciiToLower s = map toLowerChar s"

definition isSpace :: "char \<Rightarrow> bool" where
  "isSpace c = (c = CHR 0x09 \<or> c = CHR 0x0A \<or> c = CHR 0x0B \<or> c = CHR 0x0C \<or> c = CHR 0x0D \<or> c = CHR '' '')"

definition asciiTrimSpace :: "string \<Rightarrow> string" where
  "asciiTrimSpace s = rev (dropWhile isSpace (rev (dropWhile isSpace s)))"

definition asciiStrings :: "Env \<Rightarrow> bool" where
  "asciiStrings env =
     (\<forall>s. ascii s \<longrightarrow>
        strings_ToLower env s = asciiToLower s \<and> strings_TrimSpace env s = asciiTrimSpace s)"

section \<open>compressionDir.Open\<close>

text \<open>
  What a handler does to the world is recorded as a trace: the files it tries to open,
  as \<open>http.Dir\<close> root and name, and the calls of the \<open>Allow\<close> callback.
\<close>

datatype Event = OpenFile string string | AllowCall string

record compressionDir =
  dir :: string
  encodings :: "Encoding list"

text \<open>\<open>fmt.Sprintf("%s.%s", path, enc)\<close>.\<close>

definition variantName :: "string \<Rightarrow> Encoding \<Rightarrow> string" where
  "variantName path enc = path @ ''.'' @ enc"

text \<open>
  The loop over \<open>t.encodings\<close>: the first variant that opens, with the attempts made.
\<close>

fun openVariants :: "Env \<Rightarrow> string \<Rightarrow> string \<Rightarrow> Encoding list \<Rightarrow> (File \<times> Encoding) option \<times> Event list" where
  "openVariants env d path [] = (None, [])"
| "openVariants env d path (enc # encs) =
     (case http_Dir_Open env d (variantName path enc) of
        Inr f \<Rightarrow> (Some (f, enc), [OpenFile d (variantName path enc)])
      | Inl err \<Rightarrow>
          (case openVariants env d path encs of
             (r, tr) \<Rightarrow> (r, OpenFile d (variantName path enc) # tr)))"

definition Open :: "Env \<Rightarrow> compressionDir \<Rightarrow> string \<Rightarrow> (string + File \<times> Encoding) \<times> Event list" where
  "Open env t path =
     (case openVariants env (dir t) path (encodings t) of
        (Some (f, enc), tr) \<Rightarrow> (Inr (f, enc), tr)
      | (None, tr) \<Rightarrow>
          (case http_Dir_Open env (dir t) path of
             Inr f \<Rightarrow> (Inr (f, []), tr @ [OpenFile (dir t) path])
           | Inl err \<Rightarrow> (Inl err, tr @ [OpenFile (dir t) path])))"

text \<open>
  \<open>Open\<close> in the words of the specification: \<open>failed\<close> are the candidates tried in vain
  before the first one that opens.
\<close>

definition opens :: "Env \<Rightarrow> string \<Rightarrow> string \<Rightarrow> bool" where
  "opens env d name = (case http_Dir_Open env d name of Inr f \<Rightarrow> True | Inl err \<Rightarrow> False)"

definition OpenSpec :: "Env \<Rightarrow> compressionDir \<Rightarrow> string \<Rightarrow> (string + File \<times> Encoding) \<times> Event list" where
  "OpenSpec env t path =
     (let failed = takeWhile (\<lambda>enc. \<not> opens env (dir t) (variantName path enc)) (encodings t);
          attempts = map (\<lambda>enc. OpenFile (dir t) (variantName path enc)) failed
      in case dropWhile (\<lambda>enc. \<not> opens env (dir t) (variantName path enc)) (encodings t) of
           enc # _ \<Rightarrow>
             (map_sum id (\<lambda>f. (f, enc)) (http_Dir_Open env (dir t) (variantName path enc)),
              attempts @ [OpenFile (dir t) (variantName path enc)])
         | [] \<Rightarrow>
             (map_sum id (\<lambda>f. (f, [])) (http_Dir_Open env (dir t) path),
              attempts @ [OpenFile (dir t) path]))"

section \<open>The handlers Server and Content\<close>

text \<open>
  What a handler returns: an error of \<open>routing.NewHTTPError\<close> (the status and the
  optional message), a panic, or \<open>nil\<close> after \<open>http.ServeContent\<close> was called for the
  file, with the \<open>Content-Encoding\<close> header the handler set before (if it set one), the
  name and the modification time. What \<open>http.ServeContent\<close> then does with the request
  (ranges, conditional requests) is the standard library's and is not modelled.
\<close>

datatype Outcome =
    HTTPError nat "string option"
  | Panic
  | ServeContent "string option" string int File

definition StatusBadRequest :: nat where
  "StatusBadRequest = 400"

definition StatusNotFound :: nat where
  "StatusNotFound = 404"

definition StatusMethodNotAllowed :: nat where
  "StatusMethodNotAllowed = 405"

definition serveFile :: "Env \<Rightarrow> compressionDir \<Rightarrow> string \<Rightarrow> Outcome \<times> Event list" where
  "serveFile env d path =
     (case Open env d path of
        (Inl err, tr) \<Rightarrow> (HTTPError StatusNotFound (Some err), tr)
      | (Inr (file, enc), tr) \<Rightarrow>
          (case Stat file of
             Inl err \<Rightarrow> (HTTPError StatusNotFound (Some err), tr)
           | Inr fstat \<Rightarrow>
               if IsDir fstat then (HTTPError StatusNotFound None, tr)
               else (ServeContent (if enc \<noteq> [] then Some enc else None) path (ModTime fstat) file, tr)))"

text \<open>
  The part of the \<open>Server\<close> handler after the mapping and the \<open>Allow\<close> gate: the
  negotiation, the open with the catch-all fallback, and the index file of a directory.
\<close>

definition serveMapped :: "Env \<Rightarrow> 'fs ServerOptions \<Rightarrow> Request \<Rightarrow> string \<Rightarrow> Outcome \<times> Event list" where
  "serveMapped env options c path =
     (let encodings = negotiateEncodings env c (case Compression options of None \<Rightarrow> [] | Some es \<Rightarrow> es);
          d = \<lparr>dir = RootPath options, encodings = encodings\<rparr>
      in case Open env d path of
           (Inl err, tr) \<Rightarrow>
             if CatchAllFile options \<noteq> []
             then (case serveFile env d (CatchAllFile options) of (r, tr') \<Rightarrow> (r, tr @ tr'))
             else (HTTPError StatusNotFound (Some err), tr)
         | (Inr (file, enc), tr) \<Rightarrow>
             (case Stat file of
                Inl err \<Rightarrow> (HTTPError StatusNotFound (Some err), tr)
              | Inr fstat \<Rightarrow>
                  if IsDir fstat
                  then (if IndexFile options = [] then (HTTPError StatusNotFound None, tr)
                        else (case serveFile env d (filepath_Join env path (IndexFile options)) of
                                (r, tr') \<Rightarrow> (r, tr @ tr')))
                  else (ServeContent (if enc \<noteq> [] then Some enc else None) path (ModTime fstat) file, tr)))"

text \<open>
  The handler that \<open>Server\<close> returns, for the options, \<open>from\<close> and \<open>to\<close> that \<open>Server\<close>
  computed: the method check, the traversal check, and then \<open>mapAndServe\<close>, the rest
  of the handler from \<open>matchPath\<close> on.
  \<open>!found || options.Allow != nil && !options.Allow(c, path)\<close> calls \<open>Allow\<close> only for a
  path that was found.
\<close>

definition mapAndServe :: "Env \<Rightarrow> 'fs ServerOptions \<Rightarrow> string list \<Rightarrow> string list \<Rightarrow> Request \<Rightarrow> Outcome \<times> Event list" where
  "mapAndServe env options from to c =
     (case matchPath (URLPath c) from to of
        None \<Rightarrow> (Panic, [])
      | Some (path, found) \<Rightarrow>
          if \<not> found then (HTTPError StatusNotFound None, [])
          else (case Allow options of
                  None \<Rightarrow> serveMapped env options c path
                | Some allow \<Rightarrow>
                    if \<not> allow c path then (HTTPError StatusNotFound None, [AllowCall path])
                    else (case serveMapped env options c path of
                            (r, tr) \<Rightarrow> (r, AllowCall path # tr))))"

definition serverHandler :: "Env \<Rightarrow> 'fs ServerOptions \<Rightarrow> string list \<Rightarrow> string list \<Rightarrow> Request \<Rightarrow> Outcome \<times> Event list" where
  "serverHandler env options from to c =
     (if Method c \<noteq> ''GET'' \<and> Method c \<noteq> ''HEAD'' then (HTTPError StatusMethodNotAllowed None, [])
      else if containsDotDot (URLPath c) then (HTTPError StatusBadRequest (Some ''invalid URL path''), [])
      else mapAndServe env options from to c)"

definition Server :: "Env \<Rightarrow> PathMap \<Rightarrow> 'fs ServerOptions list \<Rightarrow> Request \<Rightarrow> Outcome \<times> Event list" where
  "Server env pathMap opts =
     (let options = getServerOptions env opts
      in case parsePathMap pathMap of (from, to) \<Rightarrow> serverHandler env options from to)"

definition contentDir :: "Env \<Rightarrow> 'fs ServerOptions \<Rightarrow> string \<Rightarrow> string \<times> string" where
  "contentDir env options path =
     (if filepath_IsAbs env path then (path, []) else (RootPath options, path))"

definition contentServe :: "Env \<Rightarrow> 'fs ServerOptions \<Rightarrow> string \<times> string \<Rightarrow> Request \<Rightarrow> Outcome \<times> Event list" where
  "contentServe env options dp c =
     (let encodings = negotiateEncodings env c (case Compression options of None \<Rightarrow> [] | Some es \<Rightarrow> es)
      in serveFile env \<lparr>dir = fst dp, encodings = encodings\<rparr> (snd dp))"

definition Content :: "Env \<Rightarrow> string \<Rightarrow> 'fs ServerOptions list \<Rightarrow> Request \<Rightarrow> Outcome \<times> Event list" where
  "Content env path opts =
     (let options = getServerOptions env opts;
          dp = contentDir env options path
      in (\<lambda>c.
            if Method c \<noteq> ''GET'' \<and> Method c \<noteq> ''HEAD'' then (HTTPError StatusMethodNotAllowed None, [])
            else if containsDotDot (URLPath c) then (HTTPError StatusBadRequest (Some ''invalid URL path''), [])
            else contentServe env options dp c))"

text \<open>
  For the statements about the handlers: the \<open>Allow\<close> gate (no callback, or a
  callback that permits the path), the trace it leaves, and the \<open>compressionDir\<close>
  that the \<open>Server\<close> handler builds for a request.
\<close>

definition allowed :: "'fs ServerOptions \<Rightarrow> Request \<Rightarrow> string \<Rightarrow> bool" where
  "allowed options c path = (case Allow options of None \<Rightarrow> True | Some allow \<Rightarrow> allow c path)"

definition allowTrace :: "'fs ServerOptions \<Rightarrow> string \<Rightarrow> Event list" where
  "allowTrace options path = (case Allow options of None \<Rightarrow> [] | Some allow \<Rightarrow> [AllowCall path])"

definition serverDir :: "Env \<Rightarrow> 'fs ServerOptions \<Rightarrow> Request \<Rightarrow> compressionDir" where
  "serverDir env options c =
     \<lparr>dir = RootPath options,
      encodings = negotiateEncodings env c (case Compression options of None \<Rightarrow> [] | Some es \<Rightarrow> es)\<rparr>"

text \<open>
  A small world for the examples: the working directory \<open>/srv\<close>, Unix paths, five
  entries under the root \<open>/srv\<close>, and the library of package \<open>strings\<close> on ASCII (the
  examples have ASCII headers only).
\<close>

definition plainFile :: "string \<Rightarrow> File" where
  "plainFile body = \<lparr>Stat = Inr \<lparr>IsDir = False, ModTime = 1700000000\<rparr>, Body = body\<rparr>"

definition directory :: File where
  "directory = \<lparr>Stat = Inr \<lparr>IsDir = True, ModTime = 1700000000\<rparr>, Body = []\<rparr>"

definition exampleFiles :: "(string \<times> File) list" where
  "exampleFiles =
     [(''/static'', directory),
      (''/static/app.js'', plainFile ''js''),
      (''/static/app.js.gzip'', plainFile ''gz''),
      (''/static/index.html'', plainFile ''index''),
      (''404.html'', plainFile ''lost'')]"

definition exampleEnv :: Env where
  "exampleEnv =
     \<lparr>pkgRootPath = ''/srv'',
      filepath_IsAbs = prefix ''/'',
      filepath_Join = (\<lambda>a b. if b = [] then a else a @ ''/'' @ b),
      http_Dir_Open = (\<lambda>root name.
        if root = ''/srv''
        then (case map_of exampleFiles name of Some f \<Rightarrow> Inr f | None \<Rightarrow> Inl ''file does not exist'')
        else Inl ''file does not exist''),
      strings_ToLower = asciiToLower,
      strings_TrimSpace = asciiTrimSpace\<rparr>"

definition exampleRequest :: "string \<Rightarrow> string \<Rightarrow> string \<Rightarrow> Request" where
  "exampleRequest m p h = \<lparr>Method = m, URLPath = p, AcceptEncoding = h\<rparr>"

section \<open>Package caching: Options.BuildHeaderValues\<close>

text \<open>
  A \<open>time.Duration\<close> is an \<open>int64\<close> count of nanoseconds: a 64-bit word, read with
  \<^const>\<open>sint\<close>. Go's \<open>%\<close> truncates towards zero (\<open>smod\<close> on the signed values,
  which cannot overflow), \<open><\<close> and \<open><=\<close> on durations are the signed comparisons, and
  \<open>+\<close>, \<open>-\<close> and unary \<open>-\<close> wrap around.
\<close>

type_synonym Duration = "64 word"

definition Second :: Duration where
  "Second = 1000000000"

definition minDuration :: Duration where
  "minDuration = word_of_int (- (2 ^ 63))"

definition maxDuration :: Duration where
  "maxDuration = word_of_int (2 ^ 63 - 1)"

definition rem64 :: "64 word \<Rightarrow> 64 word \<Rightarrow> 64 word" where
  "rem64 a b = word_of_int (sint a smod sint b)"

text \<open>
  \<open>lessThanHalf\<close> of package \<open>time\<close>: \<open>uint64(x)+uint64(x) < uint64(y)\<close>, an unsigned
  comparison, which is the order of words.
\<close>

definition lessThanHalf :: "Duration \<Rightarrow> Duration \<Rightarrow> bool" where
  "lessThanHalf x y = (x + x < y)"

text \<open>
  \<open>Duration.Round\<close>, transcribed from package \<open>time\<close> of the standard library: the
  nearest multiple of \<open>m\<close>, halfway values away from zero, and the maximum or minimum
  duration when the result does not fit.
\<close>

definition Round :: "Duration \<Rightarrow> Duration \<Rightarrow> Duration" where
  "Round d m =
     (if m \<le>s 0 then d
      else let r = rem64 d m
           in if d <s 0
              then (let r = - r
                    in if lessThanHalf r m then d + r
                       else let d1 = d - m + r
                            in if d1 <s d then d1 else minDuration)
              else if lessThanHalf r m then d - r
              else let d1 = d + m - r
                   in if d <s d1 then d1 else maxDuration)"

text \<open>
  \<open>int64(d.Seconds())\<close> for a duration \<open>d\<close> that \<open>Round(time.Second)\<close> returns: a
  multiple of a second, or the maximum or minimum duration. \<open>Seconds\<close> is
  \<open>float64(d / Second) + float64(d % Second) / 1e9\<close> and the conversion to \<open>int64\<close>
  truncates towards zero. The whole seconds are below \<open>2 ^ 34\<close> in absolute value, so
  they are a \<open>float64\<close> exactly; the fraction is zero for a multiple of a second, and
  about \<open>0.85\<close> in absolute value for the maximum and the minimum duration, far from
  the next whole number. So the sum truncates to \<open>d / Second\<close>, Go's truncating
  division. (For other durations the sum can round up to the next whole number;
  \<open>BuildHeaderValues\<close> does not take their seconds.)
\<close>

definition secondsInt64 :: "Duration \<Rightarrow> int" where
  "secondsInt64 d = sint d sdiv 1000000000"

text \<open>The verb \<open>%d\<close> of package \<open>fmt\<close>: decimal digits, with a minus sign below zero.\<close>

definition digitChar :: "nat \<Rightarrow> char" where
  "digitChar n = ''0123456789'' ! n"

fun decimal :: "nat \<Rightarrow> string" where
  "decimal n = (if n < 10 then [digitChar n] else decimal (n div 10) @ [digitChar (n mod 10)])"

text \<open>The equation of \<open>decimal\<close> is unfolded by hand, or on numerals.\<close>

declare decimal.simps [simp del]

definition formatInt :: "int \<Rightarrow> string" where
  "formatInt i = (if i < 0 then CHR ''-'' # decimal (nat (- i)) else decimal (nat i))"

type_synonym AccessType = string

definition AccessPublic :: AccessType where
  "AccessPublic = ''public''"

definition AccessPrivate :: AccessType where
  "AccessPrivate = ''private''"

record Options =
  Access :: AccessType
  MaxAge :: Duration
  SMaxAge :: Duration
  NoCache :: bool
  NoStore :: bool
  MustRevalidate :: bool
  ProxyRevalidate :: bool
  MustUnderstand :: bool
  NoTransform :: bool
  Immutable :: bool

text \<open>
  \<open>BuildHeaderValues\<close>: \<open>sb\<close> is the \<open>strings.Builder\<close>, and \<open>v[:len(v)-2]\<close> cuts the
  last separator.
\<close>

definition BuildHeaderValues :: "Options \<Rightarrow> string" where
  "BuildHeaderValues t =
     (let sb = [];
          sb = (if Access t \<noteq> [] then sb @ Access t @ '', '' else sb);
          sb = (if MaxAge t \<noteq> 0
                then sb @ ''max-age='' @ formatInt (secondsInt64 (Round (MaxAge t) Second)) @ '', ''
                else sb);
          sb = (if SMaxAge t \<noteq> 0
                then sb @ ''s-max-age='' @ formatInt (secondsInt64 (Round (SMaxAge t) Second)) @ '', ''
                else sb);
          sb = (if NoCache t then sb @ ''no-cache, '' else sb);
          sb = (if NoStore t then sb @ ''no-store, '' else sb);
          sb = (if MustRevalidate t then sb @ ''must-revalidate, '' else sb);
          sb = (if ProxyRevalidate t then sb @ ''proxy-revalidate, '' else sb);
          sb = (if MustUnderstand t then sb @ ''must-understand, '' else sb);
          sb = (if NoTransform t then sb @ ''no-transform, '' else sb);
          sb = (if Immutable t then sb @ ''immutable, '' else sb);
          v = sb
      in if length v < 2 then [] else take (length v - 2) v)"

text \<open>
  The header value in the words of the specification: the directives that are set, in
  the fixed order, joined by \<open>", "\<close>. \<open>wholeSeconds\<close> is the duration in seconds,
  rounded to the nearest whole second with halves away from zero; \<open>roundedSeconds\<close>
  is the same but for the durations within half a second of the ends of the \<open>int64\<close>
  range, which give 9223372036 seconds (the whole seconds of the largest duration).
\<close>

definition wholeSeconds :: "Duration \<Rightarrow> int" where
  "wholeSeconds d =
     (if 0 \<le> sint d then (sint d + 500000000) div 1000000000
      else - ((- sint d + 500000000) div 1000000000))"

definition roundedSeconds :: "Duration \<Rightarrow> int" where
  "roundedSeconds d =
     (if 0 \<le> sint d then min (wholeSeconds d) 9223372036 else max (wholeSeconds d) (- 9223372036))"

definition flag :: "bool \<Rightarrow> string \<Rightarrow> string list" where
  "flag b token = (if b then [token] else [])"

definition accessDirective :: "Options \<Rightarrow> string list" where
  "accessDirective t = (if Access t \<noteq> [] then [Access t] else [])"

definition ageDirective :: "(Duration \<Rightarrow> int) \<Rightarrow> string \<Rightarrow> Duration \<Rightarrow> string list" where
  "ageDirective seconds name d = (if d \<noteq> 0 then [name @ ''='' @ formatInt (seconds d)] else [])"

definition flagDirectives :: "Options \<Rightarrow> string list" where
  "flagDirectives t =
     flag (NoCache t) ''no-cache'' @ flag (NoStore t) ''no-store''
     @ flag (MustRevalidate t) ''must-revalidate'' @ flag (ProxyRevalidate t) ''proxy-revalidate''
     @ flag (MustUnderstand t) ''must-understand'' @ flag (NoTransform t) ''no-transform''
     @ flag (Immutable t) ''immutable''"

definition directives :: "(Duration \<Rightarrow> int) \<Rightarrow> Options \<Rightarrow> string list" where
  "directives seconds t =
     accessDirective t @ ageDirective seconds ''max-age'' (MaxAge t)
     @ ageDirective seconds ''s-max-age'' (SMaxAge t) @ flagDirectives t"

fun joinWith :: "string \<Rightarrow> string list \<Rightarrow> string" where
  "joinWith sep [] = []"
| "joinWith sep [x] = x"
| "joinWith sep (x # y # ys) = x @ sep @ joinWith sep (y # ys)"

definition unsetOptions :: "Options \<Rightarrow> bool" where
  "unsetOptions t =
     (Access t = [] \<and> MaxAge t = 0 \<and> SMaxAge t = 0 \<and> \<not> NoCache t \<and> \<not> NoStore t
      \<and> \<not> MustRevalidate t \<and> \<not> ProxyRevalidate t \<and> \<not> MustUnderstand t
      \<and> \<not> NoTransform t \<and> \<not> Immutable t)"

text \<open>Two option sets for the examples: every directive set, and none.\<close>

definition exampleOptions :: Options where
  "exampleOptions =
     \<lparr>Access = AccessPublic, MaxAge = 300000000000, SMaxAge = 600000000000, NoCache = True,
      NoStore = True, MustRevalidate = True, ProxyRevalidate = True, MustUnderstand = True,
      NoTransform = True, Immutable = True\<rparr>"

definition noOptions :: Options where
  "noOptions =
     \<lparr>Access = [], MaxAge = 0, SMaxAge = 0, NoCache = False,
      NoStore = False, MustRevalidate = False, ProxyRevalidate = False, MustUnderstand = False,
      NoTransform = False, Immutable = False\<rparr>"

section \<open>Theorems about ServerOptions.Merge\<close>

lemma Merge_fields:
  "RootPath (Merge a b) = (if RootPath b \<noteq> [] then RootPath b else RootPath a)"
  "IndexFile (Merge a b) = (if IndexFile b \<noteq> [] then IndexFile b else IndexFile a)"
  "CatchAllFile (Merge a b) = (if CatchAllFile b \<noteq> [] then CatchAllFile b else CatchAllFile a)"
  "Allow (Merge a b) = (if Allow b \<noteq> None then Allow b else Allow a)"
  "Compression (Merge a b) = (if Compression b \<noteq> None then Compression b else Compression a)"
  "FS (Merge a b) = (if FS b \<noteq> None then FS b else FS a)"
  by (simp_all add: Merge_def Let_def)

lemma mergeAll_snoc: "mergeAll a (bs @ [b]) = Merge (mergeAll a bs) b"
  by (induction bs arbitrary: a) simp_all

lemma mergeAll_field:
  assumes step: "\<And>x y. field (Merge x y) = (if isSet (field y) then field y else field x)"
  shows "field (mergeAll a bs) = lastSet field isSet a bs"
proof (induction bs rule: rev_induct)
  case Nil
  show ?case by (simp add: lastSet_def)
next
  case (snoc b bs)
  show ?case
  proof (cases "isSet (field b)")
    case True
    then show ?thesis by (simp add: mergeAll_snoc step lastSet_def)
  next
    case False
    then have "field (mergeAll a (bs @ [b])) = field (mergeAll a bs)"
      by (simp add: mergeAll_snoc step)
    also have "\<dots> = lastSet field isSet a bs" by (rule snoc.IH)
    also have "\<dots> = lastSet field isSet a (bs @ [b])"
      using False by (simp add: lastSet_def)
    finally show ?thesis .
  qed
qed

lemma Merge_more: "ServerOptions.more (Merge a b) = ServerOptions.more a"
  by (simp add: Merge_def Let_def)

lemma Merge_assoc: "Merge (Merge a b) c = Merge a (Merge b c)"
  by (rule ServerOptions.equality) (auto simp add: Merge_fields Merge_more)

lemma mergeAll_fields:
  "RootPath (mergeAll a bs) = lastSet RootPath (\<lambda>v. v \<noteq> []) a bs"
  "IndexFile (mergeAll a bs) = lastSet IndexFile (\<lambda>v. v \<noteq> []) a bs"
  "CatchAllFile (mergeAll a bs) = lastSet CatchAllFile (\<lambda>v. v \<noteq> []) a bs"
  "Allow (mergeAll a bs) = lastSet Allow (\<lambda>v. v \<noteq> None) a bs"
  "Compression (mergeAll a bs) = lastSet Compression (\<lambda>v. v \<noteq> None) a bs"
  "FS (mergeAll a bs) = lastSet FS (\<lambda>v. v \<noteq> None) a bs"
  by (rule mergeAll_field, rule Merge_fields)+

lemma getServerOptions_fields:
  "IndexFile (getServerOptions env opts) = IndexFile (mergeAll zeroServerOptions opts)"
  "CatchAllFile (getServerOptions env opts) = CatchAllFile (mergeAll zeroServerOptions opts)"
  "Allow (getServerOptions env opts) = Allow (mergeAll zeroServerOptions opts)"
  "Compression (getServerOptions env opts) = Compression (mergeAll zeroServerOptions opts)"
  "FS (getServerOptions env opts) = FS (mergeAll zeroServerOptions opts)"
  "RootPath (getServerOptions env opts) =
     (if filepath_IsAbs env (RootPath (mergeAll zeroServerOptions opts))
      then RootPath (mergeAll zeroServerOptions opts)
      else filepath_Join env (pkgRootPath env) (RootPath (mergeAll zeroServerOptions opts)))"
  by (simp_all add: getServerOptions_def Let_def)

text \<open>
  C7. \<open>Merge a b\<close> takes, field by field, the value of \<open>b\<close> where \<open>b\<close> sets the field
  (a non-empty string, a non-nil function, slice or FS) and the value of \<open>a\<close> where it
  does not, and merging is associative. So the left-to-right fold of a sequence of
  option sets gives every field the value of the last set of the sequence that sets
  it, and the starting value when none does; \<open>getServerOptions\<close> runs this fold from
  the zero value, and then only makes \<open>RootPath\<close> absolute.
\<close>

theorem Merge_overrides_set_fields:
  "RootPath (Merge a b) = (if RootPath b \<noteq> [] then RootPath b else RootPath a)
   \<and> IndexFile (Merge a b) = (if IndexFile b \<noteq> [] then IndexFile b else IndexFile a)
   \<and> CatchAllFile (Merge a b) = (if CatchAllFile b \<noteq> [] then CatchAllFile b else CatchAllFile a)
   \<and> Allow (Merge a b) = (if Allow b \<noteq> None then Allow b else Allow a)
   \<and> Compression (Merge a b) = (if Compression b \<noteq> None then Compression b else Compression a)
   \<and> FS (Merge a b) = (if FS b \<noteq> None then FS b else FS a)
   \<and> Merge (Merge a b) c = Merge a (Merge b c)
   \<and> RootPath (mergeAll a bs) = lastSet RootPath (\<lambda>v. v \<noteq> []) a bs
   \<and> IndexFile (mergeAll a bs) = lastSet IndexFile (\<lambda>v. v \<noteq> []) a bs
   \<and> CatchAllFile (mergeAll a bs) = lastSet CatchAllFile (\<lambda>v. v \<noteq> []) a bs
   \<and> Allow (mergeAll a bs) = lastSet Allow (\<lambda>v. v \<noteq> None) a bs
   \<and> Compression (mergeAll a bs) = lastSet Compression (\<lambda>v. v \<noteq> None) a bs
   \<and> FS (mergeAll a bs) = lastSet FS (\<lambda>v. v \<noteq> None) a bs
   \<and> IndexFile (getServerOptions env opts) = lastSet IndexFile (\<lambda>v. v \<noteq> []) zeroServerOptions opts
   \<and> CatchAllFile (getServerOptions env opts) = lastSet CatchAllFile (\<lambda>v. v \<noteq> []) zeroServerOptions opts
   \<and> Allow (getServerOptions env opts) = lastSet Allow (\<lambda>v. v \<noteq> None) zeroServerOptions opts
   \<and> Compression (getServerOptions env opts) = lastSet Compression (\<lambda>v. v \<noteq> None) zeroServerOptions opts
   \<and> FS (getServerOptions env opts) = lastSet FS (\<lambda>v. v \<noteq> None) zeroServerOptions opts
   \<and> RootPath (getServerOptions env opts) =
       (if filepath_IsAbs env (lastSet RootPath (\<lambda>v. v \<noteq> []) zeroServerOptions opts)
        then lastSet RootPath (\<lambda>v. v \<noteq> []) zeroServerOptions opts
        else filepath_Join env (pkgRootPath env)
               (lastSet RootPath (\<lambda>v. v \<noteq> []) zeroServerOptions opts))"
proof -
  note final = getServerOptions_fields [of env opts, unfolded mergeAll_fields]
  show ?thesis
    by (intro conjI) (rule Merge_fields Merge_assoc mergeAll_fields final)+
qed

section \<open>Theorems about compressionDir.Open\<close>

lemma not_opens_iff: "\<not> opens env d name \<longleftrightarrow> (\<exists>err. http_Dir_Open env d name = Inl err)"
  by (cases "http_Dir_Open env d name") (simp_all add: opens_def)

lemma openVariants_all_fail:
  "\<forall>e\<in>set encs. \<not> opens env d (variantName path e) \<Longrightarrow>
   openVariants env d path encs = (None, map (\<lambda>e. OpenFile d (variantName path e)) encs)"
proof (induction encs)
  case Nil
  show ?case by simp
next
  case (Cons e encs)
  from Cons.prems obtain err where "http_Dir_Open env d (variantName path e) = Inl err"
    by (auto simp: not_opens_iff)
  moreover from Cons have "openVariants env d path encs = (None, map (\<lambda>e. OpenFile d (variantName path e)) encs)"
    by simp
  ultimately show ?case by simp
qed

lemma openVariants_first:
  assumes "\<forall>e\<in>set failed. \<not> opens env d (variantName path e)"
    and "http_Dir_Open env d (variantName path enc) = Inr f"
  shows "openVariants env d path (failed @ enc # rest) =
         (Some (f, enc), map (\<lambda>e. OpenFile d (variantName path e)) (failed @ [enc]))"
  using assms
proof (induction failed)
  case Nil
  then show ?case by simp
next
  case (Cons e failed)
  from Cons.prems obtain err where "http_Dir_Open env d (variantName path e) = Inl err"
    by (auto simp: not_opens_iff)
  moreover from Cons have "openVariants env d path (failed @ enc # rest) =
         (Some (f, enc), map (\<lambda>e. OpenFile d (variantName path e)) (failed @ [enc]))"
    by simp
  ultimately show ?case by simp
qed

lemma Open_eq_OpenSpec: "Open env t path = OpenSpec env t path"
proof -
  let ?bad = "\<lambda>enc. \<not> opens env (dir t) (variantName path enc)"
  let ?ev = "\<lambda>e. OpenFile (dir t) (variantName path e)"
  show ?thesis
  proof (cases "dropWhile ?bad (encodings t)")
    case Nil
    then have all: "\<forall>e\<in>set (encodings t). ?bad e"
      by (simp add: dropWhile_eq_Nil_conv)
    then have tw: "takeWhile ?bad (encodings t) = encodings t"
      by (simp add: takeWhile_eq_all_conv)
    show ?thesis
      by (cases "http_Dir_Open env (dir t) path")
        (simp_all add: Open_def OpenSpec_def Let_def Nil tw openVariants_all_fail [OF all])
  next
    case (Cons enc rest)
    let ?failed = "takeWhile ?bad (encodings t)"
    have split: "encodings t = ?failed @ enc # rest"
      using Cons takeWhile_dropWhile_id [of ?bad "encodings t"] by simp
    have fails: "\<forall>e\<in>set ?failed. ?bad e"
      by (auto dest: set_takeWhileD)
    have "\<not> ?bad enc"
      using Cons hd_dropWhile [of ?bad "encodings t"] by simp
    then obtain f where f: "http_Dir_Open env (dir t) (variantName path enc) = Inr f"
      by (cases "http_Dir_Open env (dir t) (variantName path enc)") (simp_all add: opens_def)
    have "openVariants env (dir t) path (encodings t) = (Some (f, enc), map ?ev (?failed @ [enc]))"
      using openVariants_first [OF fails f, of rest] split by simp
    then show ?thesis
      by (simp add: Open_def OpenSpec_def Let_def Cons f)
  qed
qed

lemma Open_trace_not_Nil: "snd (Open env t path) \<noteq> []"
  by (simp add: Open_eq_OpenSpec OpenSpec_def Let_def split: list.splits)

text \<open>
  C6. \<open>Open\<close> tries the path suffixed with \<open>.\<close> and each candidate's token, in list
  order, and returns the first file that opens with that encoding; when every variant
  fails it opens the unsuffixed path and returns the file with the empty encoding; and
  when that fails too it returns the error of that last attempt, whatever the errors of
  the variants were. The trace lists the attempts in order.
\<close>

theorem Open_first_variant_then_plain:
  "Open env t path = OpenSpec env t path
   \<and> (\<forall>failed enc rest f.
        encodings t = failed @ enc # rest
        \<and> (\<forall>e\<in>set failed. \<not> opens env (dir t) (variantName path e))
        \<and> http_Dir_Open env (dir t) (variantName path enc) = Inr f
        \<longrightarrow> Open env t path =
              (Inr (f, enc), map (\<lambda>e. OpenFile (dir t) (variantName path e)) (failed @ [enc])))
   \<and> (\<forall>f.
        (\<forall>e\<in>set (encodings t). \<not> opens env (dir t) (variantName path e))
        \<and> http_Dir_Open env (dir t) path = Inr f
        \<longrightarrow> Open env t path =
              (Inr (f, []),
               map (\<lambda>e. OpenFile (dir t) (variantName path e)) (encodings t) @ [OpenFile (dir t) path]))
   \<and> (\<forall>err.
        (\<forall>e\<in>set (encodings t). \<not> opens env (dir t) (variantName path e))
        \<and> http_Dir_Open env (dir t) path = Inl err
        \<longrightarrow> Open env t path =
              (Inl err,
               map (\<lambda>e. OpenFile (dir t) (variantName path e)) (encodings t) @ [OpenFile (dir t) path]))"
proof (intro conjI allI impI)
  show "Open env t path = OpenSpec env t path"
    by (rule Open_eq_OpenSpec)
next
  fix failed enc rest f
  assume h: "encodings t = failed @ enc # rest
        \<and> (\<forall>e\<in>set failed. \<not> opens env (dir t) (variantName path e))
        \<and> http_Dir_Open env (dir t) (variantName path enc) = Inr f"
  then have "openVariants env (dir t) path (encodings t) =
      (Some (f, enc), map (\<lambda>e. OpenFile (dir t) (variantName path e)) (failed @ [enc]))"
    using openVariants_first [of failed env "dir t" path enc f rest] by simp
  then show "Open env t path =
      (Inr (f, enc), map (\<lambda>e. OpenFile (dir t) (variantName path e)) (failed @ [enc]))"
    by (simp add: Open_def)
next
  fix f
  assume h: "(\<forall>e\<in>set (encodings t). \<not> opens env (dir t) (variantName path e))
        \<and> http_Dir_Open env (dir t) path = Inr f"
  then show "Open env t path =
      (Inr (f, []),
       map (\<lambda>e. OpenFile (dir t) (variantName path e)) (encodings t) @ [OpenFile (dir t) path])"
    using openVariants_all_fail [of "encodings t" env "dir t" path] by (simp add: Open_def)
next
  fix err
  assume h: "(\<forall>e\<in>set (encodings t). \<not> opens env (dir t) (variantName path e))
        \<and> http_Dir_Open env (dir t) path = Inl err"
  then show "Open env t path =
      (Inl err,
       map (\<lambda>e. OpenFile (dir t) (variantName path e)) (encodings t) @ [OpenFile (dir t) path])"
    using openVariants_all_fail [of "encodings t" env "dir t" path] by (simp add: Open_def)
qed

text \<open>The file system of the example world.\<close>

lemma example_open:
  "http_Dir_Open exampleEnv ''/srv'' name =
     (case map_of exampleFiles name of Some f \<Rightarrow> Inr f | None \<Rightarrow> Inl ''file does not exist'')"
  by (simp add: exampleEnv_def)

text \<open>
  The three cases in the example world, with candidates \<open>br\<close> and \<open>gzip\<close>: a file with a
  \<open>.gzip\<close> variant, a file with no variant, and a missing file.
\<close>

theorem Open_first_variant_then_plain_witness:
  "Open exampleEnv \<lparr>dir = ''/srv'', encodings = [Brotli, GZip]\<rparr> ''/static/app.js'' =
     (Inr (plainFile ''gz'', GZip),
      [OpenFile ''/srv'' ''/static/app.js.br'', OpenFile ''/srv'' ''/static/app.js.gzip''])
   \<and> Open exampleEnv \<lparr>dir = ''/srv'', encodings = [Brotli, GZip]\<rparr> ''/static/index.html'' =
     (Inr (plainFile ''index'', []),
      [OpenFile ''/srv'' ''/static/index.html.br'', OpenFile ''/srv'' ''/static/index.html.gzip'',
       OpenFile ''/srv'' ''/static/index.html''])
   \<and> Open exampleEnv \<lparr>dir = ''/srv'', encodings = [Brotli, GZip]\<rparr> ''/missing'' =
     (Inl ''file does not exist'',
      [OpenFile ''/srv'' ''/missing.br'', OpenFile ''/srv'' ''/missing.gzip'',
       OpenFile ''/srv'' ''/missing''])"
proof -
  let ?t = "\<lparr>dir = ''/srv'', encodings = [Brotli, GZip]\<rparr>"
  note ev = example_open exampleFiles_def opens_def variantName_def Brotli_def GZip_def
  have a: "encodings ?t = [Brotli] @ GZip # []
        \<and> (\<forall>e\<in>set [Brotli]. \<not> opens exampleEnv (dir ?t) (variantName ''/static/app.js'' e))
        \<and> http_Dir_Open exampleEnv (dir ?t) (variantName ''/static/app.js'' GZip) = Inr (plainFile ''gz'')"
    by (simp add: ev)
  have b: "(\<forall>e\<in>set (encodings ?t). \<not> opens exampleEnv (dir ?t) (variantName ''/static/index.html'' e))
        \<and> http_Dir_Open exampleEnv (dir ?t) ''/static/index.html'' = Inr (plainFile ''index'')"
    by (simp add: ev)
  have c: "(\<forall>e\<in>set (encodings ?t). \<not> opens exampleEnv (dir ?t) (variantName ''/missing'' e))
        \<and> http_Dir_Open exampleEnv (dir ?t) ''/missing'' = Inl ''file does not exist''"
    by (simp add: ev)
  from Open_first_variant_then_plain [of exampleEnv ?t "''/static/app.js''"] a
  have 1: "Open exampleEnv ?t ''/static/app.js'' =
      (Inr (plainFile ''gz'', GZip), map (\<lambda>e. OpenFile (dir ?t) (variantName ''/static/app.js'' e)) ([Brotli] @ [GZip]))"
    by blast
  from Open_first_variant_then_plain [of exampleEnv ?t "''/static/index.html''"] b
  have 2: "Open exampleEnv ?t ''/static/index.html'' =
      (Inr (plainFile ''index'', []),
       map (\<lambda>e. OpenFile (dir ?t) (variantName ''/static/index.html'' e)) (encodings ?t) @ [OpenFile (dir ?t) ''/static/index.html''])"
    by blast
  from Open_first_variant_then_plain [of exampleEnv ?t "''/missing''"] c
  have 3: "Open exampleEnv ?t ''/missing'' =
      (Inl ''file does not exist'',
       map (\<lambda>e. OpenFile (dir ?t) (variantName ''/missing'' e)) (encodings ?t) @ [OpenFile (dir ?t) ''/missing''])"
    by blast
  show ?thesis
    unfolding 1 2 3 by (simp add: variantName_def Brotli_def GZip_def)
qed

section \<open>Lemmas about segments, FieldsFunc and containsDotDot\<close>

lemma segments_not_Nil: "segments f s \<noteq> []"
  by (induction s) (auto split: list.splits)

lemma fieldsLoop_segments:
  "fieldsLoop f cur s = filter (\<lambda>x. x \<noteq> []) ((cur @ hd (segments f s)) # tl (segments f s))"
proof (induction s arbitrary: cur)
  case Nil
  show ?case by simp
next
  case (Cons c cs)
  obtain y ys where seg: "segments f cs = y # ys"
    using segments_not_Nil [of f cs] by (cases "segments f cs") auto
  show ?case
  proof (cases "f c")
    case True
    then show ?thesis using Cons.IH [of "[]"] seg by simp
  next
    case False
    then show ?thesis using Cons.IH [of "cur @ [c]"] seg by simp
  qed
qed

lemma FieldsFunc_segments: "FieldsFunc s f = filter (\<lambda>x. x \<noteq> []) (segments f s)"
  using fieldsLoop_segments [of f "[]" s] segments_not_Nil [of f s]
  by (cases "segments f s") (simp_all add: FieldsFunc_def)

lemma Contains_iff: "Contains s sub \<longleftrightarrow> (\<exists>pre post. s = pre @ sub @ post)"
proof (induction s)
  case Nil
  show ?case by auto
next
  case (Cons c cs)
  show ?case
  proof
    assume "Contains (c # cs) sub"
    then consider "prefix sub (c # cs)" | "Contains cs sub" by auto
    then show "\<exists>pre post. c # cs = pre @ sub @ post"
    proof cases
      case 1
      then obtain post where "c # cs = sub @ post" by (auto simp: prefix_def)
      then have "c # cs = [] @ sub @ post" by simp
      then show ?thesis by blast
    next
      case 2
      with Cons obtain pre post where "cs = pre @ sub @ post" by auto
      then have "c # cs = (c # pre) @ sub @ post" by simp
      then show ?thesis by blast
    qed
  next
    assume "\<exists>pre post. c # cs = pre @ sub @ post"
    then obtain pre post where eq: "c # cs = pre @ sub @ post" by blast
    show "Contains (c # cs) sub"
    proof (cases pre)
      case Nil
      with eq have "prefix sub (c # cs)" by (simp add: prefix_def)
      then show ?thesis by simp
    next
      case (Cons a pre')
      with eq have "cs = pre' @ sub @ post" by simp
      with Cons.IH have "Contains cs sub" by blast
      then show ?thesis by simp
    qed
  qed
qed

lemma segments_split: "f c \<Longrightarrow> segments f (a @ c # b) = segments f a @ segments f b"
proof (induction a)
  case Nil
  then show ?case by simp
next
  case (Cons d a)
  obtain y ys where "segments f a = y # ys"
    using segments_not_Nil [of f a] by (cases "segments f a") auto
  with Cons show ?case by simp
qed

lemma segments_no_delim: "\<forall>c\<in>set x. \<not> f c \<Longrightarrow> segments f x = [x]"
  by (induction x) simp_all

lemma segment_intro:
  assumes nd: "\<forall>c\<in>set x. \<not> f c"
    and pre: "pre = [] \<or> f (last pre)"
    and post: "post = [] \<or> f (hd post)"
  shows "x \<in> set (segments f (pre @ x @ post))"
proof -
  have tail: "x \<in> set (segments f (x @ post))"
  proof (cases post)
    case Nil
    then show ?thesis using segments_no_delim [OF nd] by simp
  next
    case (Cons c post')
    with post have "f c" by simp
    then show ?thesis
      using segments_split [of f c x post'] segments_no_delim [OF nd] Cons by simp
  qed
  show ?thesis
  proof (cases pre rule: rev_cases)
    case Nil
    then show ?thesis using tail by simp
  next
    case (snoc pre' c)
    with pre have "f c" by simp
    then have "segments f (pre @ x @ post) = segments f pre' @ segments f (x @ post)"
      using segments_split [of f c pre' "x @ post"] snoc by simp
    then show ?thesis using tail by simp
  qed
qed

lemma segments_hd_tl:
  "(\<exists>post. s = hd (segments f s) @ post \<and> (post = [] \<or> f (hd post)))
   \<and> (\<forall>x\<in>set (tl (segments f s)). \<exists>pre post. s = pre @ x @ post \<and> pre \<noteq> [] \<and> f (last pre) \<and> (post = [] \<or> f (hd post)))"
proof (induction s)
  case Nil
  show ?case by simp
next
  case (Cons c cs)
  obtain y ys where seg: "segments f cs = y # ys"
    using segments_not_Nil [of f cs] by (cases "segments f cs") auto
  from Cons seg obtain post0 where hd0: "cs = y @ post0" "post0 = [] \<or> f (hd post0)"
    by auto
  from Cons seg have tl0: "\<forall>x\<in>set ys. \<exists>pre post. cs = pre @ x @ post \<and> pre \<noteq> [] \<and> f (last pre) \<and> (post = [] \<or> f (hd post))"
    by auto
  have tl_lift: "\<exists>pre post. c # cs = pre @ x @ post \<and> pre \<noteq> [] \<and> f (last pre) \<and> (post = [] \<or> f (hd post))"
    if "x \<in> set ys" for x
  proof -
    from tl0 that obtain pre post where "cs = pre @ x @ post" "pre \<noteq> []" "f (last pre)" "post = [] \<or> f (hd post)"
      by blast
    then have "c # cs = (c # pre) @ x @ post \<and> c # pre \<noteq> [] \<and> f (last (c # pre)) \<and> (post = [] \<or> f (hd post))"
      by simp
    then show ?thesis by blast
  qed
  show ?case
  proof (cases "f c")
    case True
    have "c # cs = [] @ (c # cs) \<and> f (hd (c # cs))" using True by simp
    then have h: "\<exists>post. c # cs = hd (segments f (c # cs)) @ post \<and> (post = [] \<or> f (hd post))"
      using True by auto
    have "\<exists>pre post. c # cs = pre @ x @ post \<and> pre \<noteq> [] \<and> f (last pre) \<and> (post = [] \<or> f (hd post))"
      if "x \<in> set (y # ys)" for x
    proof (cases "x = y")
      case True
      have "c # cs = [c] @ y @ post0 \<and> [c] \<noteq> [] \<and> f (last [c]) \<and> (post0 = [] \<or> f (hd post0))"
        using hd0 \<open>f c\<close> by simp
      then show ?thesis unfolding True by blast
    next
      case False
      with that have "x \<in> set ys" by simp
      then show ?thesis by (rule tl_lift)
    qed
    then show ?thesis using h True seg by simp
  next
    case False
    have "c # cs = (c # y) @ post0" using hd0 by simp
    then have h: "\<exists>post. c # cs = hd (segments f (c # cs)) @ post \<and> (post = [] \<or> f (hd post))"
      using False seg hd0(2) by auto
    show ?thesis using h False seg tl_lift by simp
  qed
qed

lemma segment_elim:
  assumes "x \<in> set (segments f s)"
  shows "\<exists>pre post. s = pre @ x @ post \<and> (pre = [] \<or> f (last pre)) \<and> (post = [] \<or> f (hd post))"
proof -
  obtain y ys where seg: "segments f s = y # ys"
    using segments_not_Nil [of f s] by (cases "segments f s") auto
  show ?thesis
  proof (cases "x = y")
    case True
    from segments_hd_tl [of s f] seg obtain post where "s = y @ post" "post = [] \<or> f (hd post)"
      by auto
    then have "s = [] @ x @ post \<and> ([] = [] \<or> f (last [])) \<and> (post = [] \<or> f (hd post))"
      using True by simp
    then show ?thesis by blast
  next
    case False
    with assms seg have "x \<in> set (tl (segments f s))" by simp
    with segments_hd_tl [of s f] show ?thesis by blast
  qed
qed

lemma dotdot_no_delim: "\<not> f CHR ''.'' \<Longrightarrow> \<forall>c\<in>set ''..''. \<not> f c"
  by simp

lemma containsDotDot_iff: "containsDotDot v \<longleftrightarrow> dotDotSegment isSlashRune v"
proof -
  have "Contains v ''..''" if "''..'' \<in> set (segments isSlashRune v)"
  proof -
    from segment_elim [OF that] obtain pre post where "v = pre @ ''..'' @ post" by blast
    then show ?thesis unfolding Contains_iff by blast
  qed
  then show ?thesis
    by (auto simp: containsDotDot_def dotDotSegment_def FieldsFunc_segments)
qed

lemma dotDotSegment_mono:
  assumes sub: "\<And>c. f c \<Longrightarrow> g c" and ng: "\<not> g CHR ''.''"
    and seg: "dotDotSegment f v"
  shows "dotDotSegment g v"
proof -
  from seg have "''..'' \<in> set (segments f v)" by (simp add: dotDotSegment_def)
  from segment_elim [OF this] obtain pre post where
    v: "v = pre @ ''..'' @ post" and b: "pre = [] \<or> f (last pre)" "post = [] \<or> f (hd post)"
    by blast
  from b sub have "pre = [] \<or> g (last pre)" "post = [] \<or> g (hd post)" by auto
  with ng have "''..'' \<in> set (segments g (pre @ ''..'' @ post))"
    by (intro segment_intro) simp_all
  then show ?thesis by (simp add: dotDotSegment_def v)
qed

lemma slash_segment_rejected: "dotDotSegment isSlash v \<Longrightarrow> containsDotDot v"
  unfolding containsDotDot_iff
  by (rule dotDotSegment_mono [where f = isSlash]) (simp_all add: isSlash_def isSlashRune_def)

section \<open>Theorems about negotiateEncodings\<close>

lemma negotiateAccepted_eq:
  "negotiateAccepted env availEnc accs negotioated =
     negotioated @ filter (\<lambda>tok. tok = availEnc)
       (map (\<lambda>accEnc. strings_TrimSpace env (strings_ToLower env accEnc)) accs)"
  by (induction accs arbitrary: negotioated) auto

lemma negotiateAvailable_eq:
  "negotiateAvailable env available accs negotioated =
     negotioated @ concat (map (\<lambda>a. filter (\<lambda>tok. tok = a)
       (map (\<lambda>accEnc. strings_TrimSpace env (strings_ToLower env accEnc)) accs)) available)"
  by (induction available arbitrary: negotioated) (simp_all add: negotiateAccepted_eq)

lemma negotiateEncodings_eq:
  "negotiateEncodings env c available =
     concat (map (\<lambda>a. filter (\<lambda>tok. tok = a) (acceptedTokens env (AcceptEncoding c))) available)"
  by (cases available) (simp_all add: negotiateEncodings_def Let_def negotiateAvailable_eq acceptedTokens_def)

lemma filter_eq_once:
  "length (filter (\<lambda>tok. tok = a) toks) \<le> 1 \<Longrightarrow>
   filter (\<lambda>tok. tok = a) toks = (if a \<in> set toks then [a] else [])"
proof (induction toks)
  case Nil
  show ?case by simp
next
  case (Cons t toks)
  show ?case
  proof (cases "t = a")
    case True
    with Cons.prems have "filter (\<lambda>tok. tok = a) toks = []" by simp
    with True show ?thesis by simp
  next
    case False
    with Cons show ?thesis by auto
  qed
qed

lemma concat_once:
  "\<forall>a\<in>set available. length (filter (\<lambda>tok. tok = a) toks) \<le> 1 \<Longrightarrow>
   concat (map (\<lambda>a. filter (\<lambda>tok. tok = a) toks) available) = filter (\<lambda>a. a \<in> set toks) available"
  by (induction available) (simp_all add: filter_eq_once)

lemma Split_chars: "t \<in> set (Split s sep) \<Longrightarrow> set t \<subseteq> set s"
proof (induction s arbitrary: t)
  case Nil
  then show ?case by simp
next
  case (Cons c cs)
  show ?case
  proof (cases "c = sep")
    case True
    with Cons.prems have "t = [] \<or> t \<in> set (Split cs sep)" by simp
    with Cons.IH show ?thesis by auto
  next
    case False
    obtain x xs where sp: "Split cs sep = x # xs"
      by (cases "Split cs sep"; cases cs) (auto split: if_splits list.splits)
    with False Cons.prems have "t = c # x \<or> t \<in> set xs" by simp
    moreover have "set x \<subseteq> set cs" "\<And>u. u \<in> set xs \<Longrightarrow> set u \<subseteq> set cs"
      using Cons.IH sp by simp_all
    ultimately show ?thesis by auto
  qed
qed

lemma ascii_subset: "ascii s \<Longrightarrow> set t \<subseteq> set s \<Longrightarrow> ascii t"
  by (auto simp: ascii_def list_all_iff)

lemma toLowerChar_ascii: "of_char c < (128 :: nat) \<Longrightarrow> of_char (toLowerChar c) < (128 :: nat)"
  by (auto simp: toLowerChar_def split: option.splits if_splits)

lemma asciiToLower_ascii: "ascii s \<Longrightarrow> ascii (asciiToLower s)"
  by (simp add: ascii_def asciiToLower_def list_all_iff toLowerChar_ascii)

lemma acceptedTokens_ascii:
  assumes "asciiStrings env" and "ascii header"
  shows "acceptedTokens env header =
     map (\<lambda>accEnc. asciiTrimSpace (asciiToLower accEnc)) (Split header CHR '','')"
  unfolding acceptedTokens_def
proof (rule map_cong [OF refl])
  fix accEnc assume "accEnc \<in> set (Split header CHR '','')"
  then have a: "ascii accEnc" using assms(2) by (blast intro: ascii_subset dest: Split_chars)
  then have "ascii (asciiToLower accEnc)" by (rule asciiToLower_ascii)
  with a assms(1) show "strings_TrimSpace env (strings_ToLower env accEnc) =
      asciiTrimSpace (asciiToLower accEnc)"
    by (simp add: asciiStrings_def)
qed

text \<open>
  C5 (as amended). For every \<open>Accept-Encoding\<close> value and every list of available
  encodings, the result lists the available encodings in the server's order, each one
  once for every token of the client's list (the header split on commas, each token
  lowercased by \<open>strings.ToLower\<close> and trimmed by \<open>strings.TrimSpace\<close>) that equals it.
  Its elements are exactly the available encodings that the client accepts, and it is
  that sub-list of \<open>available\<close> when no available encoding occurs twice among the
  client's tokens. With no available encodings the result is empty, whatever the
  header is. This holds for every header value, whatever the two library functions
  do to it; for a header of ASCII bytes the tokens are the parts between the commas
  with \<open>A\<close> to \<open>Z\<close> lowered and the ASCII white space trimmed at both ends.
\<close>

theorem negotiateEncodings_once_per_accepted_token:
  "negotiateEncodings env c available =
     concat (map (\<lambda>a. filter (\<lambda>tok. tok = a) (acceptedTokens env (AcceptEncoding c))) available)
   \<and> set (negotiateEncodings env c available) =
     {a. a \<in> set available \<and> a \<in> set (acceptedTokens env (AcceptEncoding c))}
   \<and> ((\<forall>a\<in>set available.
          length (filter (\<lambda>tok. tok = a) (acceptedTokens env (AcceptEncoding c))) \<le> 1) \<longrightarrow>
        negotiateEncodings env c available =
          filter (\<lambda>a. a \<in> set (acceptedTokens env (AcceptEncoding c))) available)
   \<and> negotiateEncodings env c [] = []
   \<and> (asciiStrings env \<and> ascii (AcceptEncoding c) \<longrightarrow>
        acceptedTokens env (AcceptEncoding c) =
          map (\<lambda>accEnc. asciiTrimSpace (asciiToLower accEnc)) (Split (AcceptEncoding c) CHR '',''))"
proof (intro conjI impI)
  show "negotiateEncodings env c available =
     concat (map (\<lambda>a. filter (\<lambda>tok. tok = a) (acceptedTokens env (AcceptEncoding c))) available)"
    by (rule negotiateEncodings_eq)
  show "set (negotiateEncodings env c available) =
     {a. a \<in> set available \<and> a \<in> set (acceptedTokens env (AcceptEncoding c))}"
    by (auto simp: negotiateEncodings_eq)
  show "negotiateEncodings env c [] = []"
    by (simp add: negotiateEncodings_def)
next
  assume "\<forall>a\<in>set available.
      length (filter (\<lambda>tok. tok = a) (acceptedTokens env (AcceptEncoding c))) \<le> 1"
  then show "negotiateEncodings env c available =
      filter (\<lambda>a. a \<in> set (acceptedTokens env (AcceptEncoding c))) available"
    unfolding negotiateEncodings_eq by (rule concat_once)
next
  assume "asciiStrings env \<and> ascii (AcceptEncoding c)"
  then show "acceptedTokens env (AcceptEncoding c) =
      map (\<lambda>accEnc. asciiTrimSpace (asciiToLower accEnc)) (Split (AcceptEncoding c) CHR '','')"
    by (simp add: acceptedTokens_ascii)
qed

lemma example_asciiStrings: "asciiStrings exampleEnv"
  by (simp add: asciiStrings_def exampleEnv_def)

lemmas token_eval = asciiTrimSpace_def asciiToLower_def toLowerChar_def isSpace_def
  Brotli_def GZip_def exampleRequest_def ascii_def

text \<open>
  The examples of the specification in the example world: \<open>[br, gzip]\<close> against
  \<open>gzip, deflate\<close> gives \<open>[gzip]\<close>, the empty header gives nothing, and so does an
  empty list of encodings. A header in capitals, with spaces around the tokens and
  \<open>gzip\<close> first, gives both encodings in the server's order.
\<close>

theorem negotiateEncodings_once_per_accepted_token_witness:
  "negotiateEncodings exampleEnv (exampleRequest ''GET'' ''/'' ''gzip, deflate'') [Brotli, GZip] = [GZip]
   \<and> negotiateEncodings exampleEnv (exampleRequest ''GET'' ''/'' []) [Brotli, GZip] = []
   \<and> negotiateEncodings exampleEnv (exampleRequest ''GET'' ''/'' '' GZip ,BR '') [Brotli, GZip] = [Brotli, GZip]
   \<and> negotiateEncodings exampleEnv (exampleRequest ''GET'' ''/'' ''gzip, deflate'') [] = []"
proof -
  let ?c = "exampleRequest ''GET'' ''/'' ''gzip, deflate''"
  let ?e = "exampleRequest ''GET'' ''/'' []"
  let ?u = "exampleRequest ''GET'' ''/'' '' GZip ,BR ''"
  note main = negotiateEncodings_once_per_accepted_token
  have a: "asciiStrings exampleEnv \<and> ascii (AcceptEncoding ?c)"
    "asciiStrings exampleEnv \<and> ascii (AcceptEncoding ?e)"
    "asciiStrings exampleEnv \<and> ascii (AcceptEncoding ?u)"
    by (simp_all add: example_asciiStrings exampleRequest_def ascii_def)
  have t: "acceptedTokens exampleEnv (AcceptEncoding ?c) = [''gzip'', ''deflate'']"
    "acceptedTokens exampleEnv (AcceptEncoding ?e) = [[]]"
    "acceptedTokens exampleEnv (AcceptEncoding ?u) = [''gzip'', ''br'']"
    unfolding main [of exampleEnv ?c, THEN conjunct2, THEN conjunct2, THEN conjunct2, THEN conjunct2, THEN mp, OF a(1)]
      main [of exampleEnv ?e, THEN conjunct2, THEN conjunct2, THEN conjunct2, THEN conjunct2, THEN mp, OF a(2)]
      main [of exampleEnv ?u, THEN conjunct2, THEN conjunct2, THEN conjunct2, THEN conjunct2, THEN mp, OF a(3)]
    by (simp_all add: token_eval)
  have once: "\<forall>a\<in>set [Brotli, GZip]. length (filter (\<lambda>tok. tok = a) (acceptedTokens exampleEnv (AcceptEncoding ?c))) \<le> 1"
    "\<forall>a\<in>set [Brotli, GZip]. length (filter (\<lambda>tok. tok = a) (acceptedTokens exampleEnv (AcceptEncoding ?e))) \<le> 1"
    "\<forall>a\<in>set [Brotli, GZip]. length (filter (\<lambda>tok. tok = a) (acceptedTokens exampleEnv (AcceptEncoding ?u))) \<le> 1"
    unfolding t by (simp_all add: Brotli_def GZip_def)
  have 1: "negotiateEncodings exampleEnv ?c [Brotli, GZip] =
      filter (\<lambda>a. a \<in> set (acceptedTokens exampleEnv (AcceptEncoding ?c))) [Brotli, GZip]"
    by (rule main [THEN conjunct2, THEN conjunct2, THEN conjunct1, THEN mp, OF once(1)])
  have 2: "negotiateEncodings exampleEnv ?e [Brotli, GZip] =
      filter (\<lambda>a. a \<in> set (acceptedTokens exampleEnv (AcceptEncoding ?e))) [Brotli, GZip]"
    by (rule main [THEN conjunct2, THEN conjunct2, THEN conjunct1, THEN mp, OF once(2)])
  have 3: "negotiateEncodings exampleEnv ?u [Brotli, GZip] =
      filter (\<lambda>a. a \<in> set (acceptedTokens exampleEnv (AcceptEncoding ?u))) [Brotli, GZip]"
    by (rule main [THEN conjunct2, THEN conjunct2, THEN conjunct1, THEN mp, OF once(3)])
  have 4: "negotiateEncodings exampleEnv ?c [] = []"
    by (rule main [THEN conjunct2, THEN conjunct2, THEN conjunct2, THEN conjunct1])
  show ?thesis
    unfolding 1 2 3 4 t by (simp add: Brotli_def GZip_def)
qed

text \<open>
  A header that names \<open>gzip\<close> twice: the result lists \<open>gzip\<close> twice, and is not the
  sub-list of the available encodings that the client accepts.
\<close>

theorem negotiateEncodings_repeated_token_counterexample:
  "negotiateEncodings exampleEnv (exampleRequest ''GET'' ''/'' ''gzip, gzip'') [GZip] = [GZip, GZip]
   \<and> filter (\<lambda>a. a \<in> set (acceptedTokens exampleEnv ''gzip, gzip'')) [GZip] = [GZip]
   \<and> [GZip, GZip] \<noteq> [GZip]"
  by (simp add: negotiateEncodings_def acceptedTokens_def exampleEnv_def token_eval)

section \<open>Theorems about parsePathMap and matchPath\<close>

lemma prefix_le_lex: "prefix a b \<Longrightarrow> a \<le> (b :: 'a :: linorder list)"
proof (induction a arbitrary: b)
  case Nil
  show ?case by simp
next
  case (Cons x a)
  then obtain b' where "b = x # b'" "prefix a b'" by (cases b) auto
  with Cons.IH show ?case by simp
qed

lemma parsePathMap_from: "fst (parsePathMap pathMap) = sort (map fst pathMap)"
  by (simp add: parsePathMap_def Let_def)

lemma parsePathMap_to:
  "snd (parsePathMap pathMap) = map (pathMapIndex pathMap) (sort (map fst pathMap))"
  by (simp add: parsePathMap_def Let_def)

lemma parsePathMap_length: "length (snd (parsePathMap pathMap)) = length (fst (parsePathMap pathMap))"
  by (simp add: parsePathMap_from parsePathMap_to)

lemma Match_matchPath:
  "Match pathMap path = matchPath path (fst (parsePathMap pathMap)) (snd (parsePathMap pathMap))"
  by (simp add: Match_def split: prod.splits)

lemma matchPathLoop_none:
  "\<forall>j<n. \<not> prefix (from ! j) path \<Longrightarrow> matchPathLoop n path from to = Some ([], False)"
  by (induction n) (simp_all add: Let_def)

lemma matchPathLoop_found:
  assumes "i < n" and "n \<le> length to"
    and "prefix (from ! i) path"
    and "\<forall>j. i < j \<and> j < n \<longrightarrow> \<not> prefix (from ! j) path"
  shows "matchPathLoop n path from to = Some (to ! i @ drop (length (from ! i)) path, True)"
  using assms
proof (induction n)
  case 0
  then show ?case by simp
next
  case (Suc n)
  show ?case
  proof (cases "i = n")
    case True
    with Suc.prems show ?thesis by (simp add: Let_def)
  next
    case False
    with Suc.prems have "i < n" by simp
    moreover from Suc.prems False have "\<not> prefix (from ! n) path" by simp
    moreover from Suc.prems have "n \<le> length to" by simp
    moreover from Suc.prems have "\<forall>j. i < j \<and> j < n \<longrightarrow> \<not> prefix (from ! j) path" by simp
    ultimately show ?thesis using Suc.IH Suc.prems(3) by (simp add: Let_def)
  qed
qed

lemma Match_no_prefix:
  assumes "\<forall>q\<in>set (map fst pathMap). \<not> prefix q path"
  shows "Match pathMap path = Some ([], False)"
proof -
  let ?from = "sort (map fst pathMap)"
  have "\<forall>j<length ?from. \<not> prefix (?from ! j) path"
  proof (intro allI impI)
    fix j assume "j < length ?from"
    then have "?from ! j \<in> set ?from" by (rule nth_mem)
    then have "?from ! j \<in> set (map fst pathMap)" by simp
    with assms show "\<not> prefix (?from ! j) path" by blast
  qed
  then show ?thesis
    unfolding Match_matchPath matchPath_def parsePathMap_from
    by (rule matchPathLoop_none)
qed

lemma Match_longest:
  assumes reg: "p \<in> set (map fst pathMap)"
    and pre: "prefix p path"
    and longest: "\<forall>q\<in>set (map fst pathMap). prefix q path \<longrightarrow> length q \<le> length p"
  shows "Match pathMap path = Some (pathMapIndex pathMap p @ drop (length p) path, True)"
proof -
  let ?from = "sort (map fst pathMap)"
  let ?to = "map (pathMapIndex pathMap) ?from"
  let ?I = "{j. j < length ?from \<and> prefix (?from ! j) path}"
  from reg have "p \<in> set ?from" by simp
  then obtain k where k: "k < length ?from" "?from ! k = p"
    unfolding in_set_conv_nth by blast
  have fin: "finite ?I" by simp
  from k pre have kI: "k \<in> ?I" by simp
  define i where "i = Max ?I"
  have iI: "i \<in> ?I" unfolding i_def using fin kI by (intro Max_in) auto
  have imax: "j \<le> i" if "j \<in> ?I" for j unfolding i_def using fin that by (rule Max_ge)
  let ?q = "?from ! i"
  from iI have i: "i < length ?from" and qpre: "prefix ?q path" by simp_all
  from i have "?q \<in> set ?from" by (rule nth_mem)
  then have "?q \<in> set (map fst pathMap)" by simp
  with longest qpre have "length ?q \<le> length p" by blast
  with pre qpre have "prefix ?q p"
    by (metis prefix_length_prefix)
  then have "?q \<le> p" by (rule prefix_le_lex)
  moreover have "p \<le> ?q"
  proof -
    from imax [OF kI] have "k \<le> i" .
    with i have "?from ! k \<le> ?from ! i"
      by (intro sorted_nth_mono) simp_all
    with k show ?thesis by simp
  qed
  ultimately have q: "?q = p" by simp
  have later: "\<forall>j. i < j \<and> j < length ?from \<longrightarrow> \<not> prefix (?from ! j) path"
    using imax by fastforce
  have "matchPathLoop (length ?from) path ?from ?to = Some (?to ! i @ drop (length ?q) path, True)"
    using i qpre later by (intro matchPathLoop_found) simp_all
  moreover have "?to ! i = pathMapIndex pathMap p"
    using i q by simp
  ultimately show ?thesis
    unfolding Match_matchPath matchPath_def parsePathMap_from parsePathMap_to
    by (simp add: q)
qed

lemma Match_not_None: "Match pathMap path \<noteq> None"
proof (cases "\<exists>q\<in>set (map fst pathMap). prefix q path")
  case False
  then show ?thesis using Match_no_prefix [of pathMap path] by simp
next
  case True
  let ?M = "{q \<in> set (map fst pathMap). prefix q path}"
  have "finite ?M" by simp
  moreover from True have "?M \<noteq> {}" by blast
  ultimately have "Max (length ` ?M) \<in> length ` ?M"
    by (intro Max_in) auto
  then obtain p where p: "p \<in> ?M" "length p = Max (length ` ?M)"
    unfolding image_iff by (metis (lifting))
  have "length q \<le> length p" if "q \<in> ?M" for q
    unfolding p(2) using that by (intro Max_ge) auto
  with p(1) have "p \<in> set (map fst pathMap)" "prefix p path"
    "\<forall>q\<in>set (map fst pathMap). prefix q path \<longrightarrow> length q \<le> length p"
    by auto
  then show ?thesis using Match_longest [of p pathMap path] by simp
qed

text \<open>
  C1. The longest registered prefix wins: when a registered prefix \<open>p\<close> matches the
  request path and no registered prefix that matches it is longer (so \<open>p\<close> extends
  every other registered prefix that matches), \<open>Match\<close> substitutes the target of \<open>p\<close>
  for \<open>p\<close> and keeps the rest of the path. Two prefixes that match the same path are
  always one an extension of the other. The witness is the example of the
  specification: with \<open>/css\<close> and \<open>/css/img\<close> registered, \<open>/css/img/logo.gif\<close> resolves to
  \<open>/ui/img/logo.gif\<close>.
\<close>

theorem longest_registered_prefix_wins:
  assumes "map_of pathMap p = Some target"
    and "prefix p path"
    and "\<forall>q\<in>set (map fst pathMap). prefix q path \<longrightarrow> length q \<le> length p"
  shows "Match pathMap path = Some (target @ drop (length p) path, True)"
proof -
  from assms(1) have "p \<in> set (map fst pathMap)"
    by (auto dest: map_of_SomeD intro: rev_image_eqI)
  from Match_longest [OF this assms(2,3)] assms(1) show ?thesis
    by (simp add: pathMapIndex_def)
qed

text \<open>The example of the specification.\<close>

theorem longest_registered_prefix_wins_witness:
  "map_of [(''/css'', ''/ui/css''), (''/css/img'', ''/ui/img'')] ''/css/img'' = Some ''/ui/img''
   \<and> prefix ''/css/img'' ''/css/img/logo.gif''
   \<and> prefix ''/css'' ''/css/img/logo.gif''
   \<and> Match [(''/css'', ''/ui/css''), (''/css/img'', ''/ui/img'')] ''/css/img/logo.gif'' =
       Some (''/ui/img/logo.gif'', True)
   \<and> ''/ui/img/logo.gif'' \<noteq> ''/ui/css/img/logo.gif''"
proof -
  let ?pm = "[(''/css'', ''/ui/css''), (''/css/img'', ''/ui/img'')]"
  have a: "map_of ?pm ''/css/img'' = Some ''/ui/img''" by simp
  have b: "prefix ''/css/img'' ''/css/img/logo.gif''" by simp
  have c: "\<forall>q\<in>set (map fst ?pm). prefix q ''/css/img/logo.gif'' \<longrightarrow> length q \<le> length ''/css/img''"
    by simp
  from longest_registered_prefix_wins [OF a b c] a b show ?thesis by simp
qed

section \<open>Theorems about the handlers\<close>

lemma serveFile_outcome:
  "fst (serveFile env d q) =
     (case fst (Open env d q) of
        Inl e \<Rightarrow> HTTPError StatusNotFound (Some e)
      | Inr (file, enc) \<Rightarrow>
          (case Stat file of
             Inl e \<Rightarrow> HTTPError StatusNotFound (Some e)
           | Inr fstat \<Rightarrow>
               if IsDir fstat then HTTPError StatusNotFound None
               else ServeContent (if enc \<noteq> [] then Some enc else None) q (ModTime fstat) file))"
  by (simp add: serveFile_def split: prod.splits sum.splits)

lemma serveFile_trace: "snd (serveFile env d q) = snd (Open env d q)"
  by (simp add: serveFile_def split: prod.splits sum.splits)

lemma serveFile_status:
  "serveFile env d q = (HTTPError status m, tr) \<Longrightarrow> status = StatusNotFound"
  by (auto simp: serveFile_def split: sum.splits prod.splits if_splits)

lemma serveMapped_status:
  "serveMapped env options c p = (HTTPError status m, tr) \<Longrightarrow> status = StatusNotFound"
  by (auto simp: serveMapped_def Let_def split: sum.splits prod.splits if_splits dest: serveFile_status)

lemma mapAndServe_status:
  "mapAndServe env options from to c = (HTTPError status m, tr) \<Longrightarrow> status = StatusNotFound"
  by (auto simp: mapAndServe_def split: option.splits sum.splits prod.splits if_splits
      dest: serveMapped_status)

lemma contentServe_status:
  "contentServe env options dp c = (HTTPError status m, tr) \<Longrightarrow> status = StatusNotFound"
  by (auto simp: contentServe_def Let_def dest: serveFile_status)

lemma contentServe_trace: "snd (contentServe env options dp c) \<noteq> []"
  by (simp add: contentServe_def Let_def serveFile_trace Open_trace_not_Nil)

lemma Server_handler:
  "Server env pathMap opts c =
     serverHandler env (getServerOptions env opts) (fst (parsePathMap pathMap)) (snd (parsePathMap pathMap)) c"
  by (simp add: Server_def Let_def split: prod.splits)

lemma Server_cases:
  "Server env pathMap opts c =
     (if Method c \<noteq> ''GET'' \<and> Method c \<noteq> ''HEAD'' then (HTTPError StatusMethodNotAllowed None, [])
      else if containsDotDot (URLPath c) then (HTTPError StatusBadRequest (Some ''invalid URL path''), [])
      else mapAndServe env (getServerOptions env opts) (fst (parsePathMap pathMap)) (snd (parsePathMap pathMap)) c)"
  by (simp only: Server_handler serverHandler_def)

lemma Content_cases:
  "Content env path opts c =
     (if Method c \<noteq> ''GET'' \<and> Method c \<noteq> ''HEAD'' then (HTTPError StatusMethodNotAllowed None, [])
      else if containsDotDot (URLPath c) then (HTTPError StatusBadRequest (Some ''invalid URL path''), [])
      else contentServe env (getServerOptions env opts) (contentDir env (getServerOptions env opts) path) c)"
  by (simp only: Content_def Let_def)

lemma status_distinct:
  "StatusNotFound \<noteq> StatusMethodNotAllowed" "StatusNotFound \<noteq> StatusBadRequest"
  "StatusBadRequest \<noteq> StatusMethodNotAllowed"
  by (simp_all add: StatusNotFound_def StatusMethodNotAllowed_def StatusBadRequest_def)

lemma Server_status:
  assumes "fst (Server env pathMap opts c) = HTTPError status m"
  shows "status = StatusMethodNotAllowed \<and> Method c \<noteq> ''GET'' \<and> Method c \<noteq> ''HEAD''
     \<or> status = StatusBadRequest \<and> containsDotDot (URLPath c) \<and> (Method c = ''GET'' \<or> Method c = ''HEAD'')
     \<or> status = StatusNotFound \<and> \<not> containsDotDot (URLPath c) \<and> (Method c = ''GET'' \<or> Method c = ''HEAD'')"
proof -
  obtain r tr where rt: "Server env pathMap opts c = (r, tr)" by (cases "Server env pathMap opts c")
  with assms have r: "r = HTTPError status m" by simp
  show ?thesis
    using rt [unfolded r Server_cases]
    by (auto split: if_splits dest: mapAndServe_status)
qed

lemma Content_status:
  assumes "fst (Content env path opts c) = HTTPError status m"
  shows "status = StatusMethodNotAllowed \<and> Method c \<noteq> ''GET'' \<and> Method c \<noteq> ''HEAD''
     \<or> status = StatusBadRequest \<and> containsDotDot (URLPath c) \<and> (Method c = ''GET'' \<or> Method c = ''HEAD'')
     \<or> status = StatusNotFound \<and> \<not> containsDotDot (URLPath c) \<and> (Method c = ''GET'' \<or> Method c = ''HEAD'')"
proof -
  obtain r tr where rt: "Content env path opts c = (r, tr)" by (cases "Content env path opts c")
  with assms have r: "r = HTTPError status m" by simp
  show ?thesis
    using rt [unfolded r Content_cases]
    by (auto split: if_splits dest: contentServe_status)
qed

text \<open>
  C8. A request whose method is neither \<open>GET\<close> nor \<open>HEAD\<close> gets \<open>MethodNotAllowed\<close> (405)
  from the \<open>Server\<close> handler and from the \<open>Content\<close> handler, whatever its path, the
  mapping table, the options and the file system are, and with an empty trace: no file
  was opened and \<open>Allow\<close> was not called. A \<open>GET\<close> or \<open>HEAD\<close> request goes on to the
  traversal check and the rest of the handler, and never gets a 405.
\<close>

theorem method_gate:
  "(Method c \<noteq> ''GET'' \<and> Method c \<noteq> ''HEAD'' \<longrightarrow>
      Server env pathMap opts c = (HTTPError StatusMethodNotAllowed None, [])
      \<and> Content env path opts c = (HTTPError StatusMethodNotAllowed None, []))
   \<and> (Method c = ''GET'' \<or> Method c = ''HEAD'' \<longrightarrow>
      Server env pathMap opts c =
        (if containsDotDot (URLPath c) then (HTTPError StatusBadRequest (Some ''invalid URL path''), [])
         else mapAndServe env (getServerOptions env opts) (fst (parsePathMap pathMap)) (snd (parsePathMap pathMap)) c)
      \<and> Content env path opts c =
        (if containsDotDot (URLPath c) then (HTTPError StatusBadRequest (Some ''invalid URL path''), [])
         else contentServe env (getServerOptions env opts) (contentDir env (getServerOptions env opts) path) c)
      \<and> (\<forall>m. fst (Server env pathMap opts c) \<noteq> HTTPError StatusMethodNotAllowed m)
      \<and> (\<forall>m. fst (Content env path opts c) \<noteq> HTTPError StatusMethodNotAllowed m))"
proof (intro conjI impI)
  assume bad: "Method c \<noteq> ''GET'' \<and> Method c \<noteq> ''HEAD''"
  show "Server env pathMap opts c = (HTTPError StatusMethodNotAllowed None, [])"
    using bad by (simp add: Server_cases)
  show "Content env path opts c = (HTTPError StatusMethodNotAllowed None, [])"
    using bad by (simp add: Content_cases)
next
  assume ok: "Method c = ''GET'' \<or> Method c = ''HEAD''"
  then have gate: "(Method c \<noteq> ''GET'' \<and> Method c \<noteq> ''HEAD'') = False" by blast
  show "Server env pathMap opts c =
        (if containsDotDot (URLPath c) then (HTTPError StatusBadRequest (Some ''invalid URL path''), [])
         else mapAndServe env (getServerOptions env opts) (fst (parsePathMap pathMap)) (snd (parsePathMap pathMap)) c)"
    by (subst Server_cases) (simp only: gate if_False)
  show "Content env path opts c =
        (if containsDotDot (URLPath c) then (HTTPError StatusBadRequest (Some ''invalid URL path''), [])
         else contentServe env (getServerOptions env opts) (contentDir env (getServerOptions env opts) path) c)"
    by (subst Content_cases) (simp only: gate if_False)
  show "\<forall>m. fst (Server env pathMap opts c) \<noteq> HTTPError StatusMethodNotAllowed m"
  proof (intro allI notI)
    fix m assume "fst (Server env pathMap opts c) = HTTPError StatusMethodNotAllowed m"
    from Server_status [OF this] ok status_distinct show False by auto
  qed
  show "\<forall>m. fst (Content env path opts c) \<noteq> HTTPError StatusMethodNotAllowed m"
  proof (intro allI notI)
    fix m assume "fst (Content env path opts c) = HTTPError StatusMethodNotAllowed m"
    from Content_status [OF this] ok status_distinct show False by auto
  qed
qed

lemmas example_eval =
  Server_cases Content_cases exampleRequest_def exampleEnv_def exampleFiles_def plainFile_def
  directory_def getServerOptions_def zeroServerOptions_def parsePathMap_def pathMapIndex_def
  matchPath_def mapAndServe_def serveMapped_def serveFile_def contentServe_def contentDir_def
  negotiateEncodings_def Open_def variantName_def containsDotDot_def FieldsFunc_def
  isSlashRune_def isSlash_def dotDotSegment_def asciiTrimSpace_def asciiToLower_def toLowerChar_def
  isSpace_def Brotli_def GZip_def Merge_def Let_def

text \<open>A \<open>POST\<close> and a \<open>GET\<close> request for the same file in the example world.\<close>

theorem method_gate_witness:
  "Server exampleEnv [(''/assets'', ''/static'')] ([] :: unit ServerOptions list)
     (exampleRequest ''POST'' ''/assets/app.js'' []) = (HTTPError StatusMethodNotAllowed None, [])
   \<and> Content exampleEnv ''/static/app.js'' ([] :: unit ServerOptions list)
     (exampleRequest ''POST'' ''/assets/app.js'' []) = (HTTPError StatusMethodNotAllowed None, [])
   \<and> Server exampleEnv [(''/assets'', ''/static'')] ([] :: unit ServerOptions list)
     (exampleRequest ''GET'' ''/assets/app.js'' []) =
       (ServeContent None ''/static/app.js'' 1700000000 (plainFile ''js''),
        [OpenFile ''/srv'' ''/static/app.js''])
   \<and> fst (Content exampleEnv ''/static/app.js'' ([] :: unit ServerOptions list)
     (exampleRequest ''GET'' ''/assets/app.js'' [])) \<noteq> HTTPError StatusMethodNotAllowed None"
proof -
  let ?post = "exampleRequest ''POST'' ''/assets/app.js'' []"
  let ?get = "exampleRequest ''GET'' ''/assets/app.js'' []"
  let ?opts = "[] :: unit ServerOptions list"
  have p: "Method ?post \<noteq> ''GET'' \<and> Method ?post \<noteq> ''HEAD''"
    by (simp add: exampleRequest_def)
  have g: "Method ?get = ''GET'' \<or> Method ?get = ''HEAD''"
    by (simp add: exampleRequest_def)
  have nd: "\<not> containsDotDot (URLPath ?get)"
    by (simp add: example_eval)
  have run: "mapAndServe exampleEnv (getServerOptions exampleEnv ?opts)
       (fst (parsePathMap [(''/assets'', ''/static'')])) (snd (parsePathMap [(''/assets'', ''/static'')])) ?get =
       (ServeContent None ''/static/app.js'' 1700000000 (plainFile ''js''),
        [OpenFile ''/srv'' ''/static/app.js''])"
    by (simp add: example_eval)
  from method_gate [of ?post exampleEnv "[(''/assets'', ''/static'')]" ?opts "''/static/app.js''"] p
  have 1: "Server exampleEnv [(''/assets'', ''/static'')] ?opts ?post = (HTTPError StatusMethodNotAllowed None, [])
      \<and> Content exampleEnv ''/static/app.js'' ?opts ?post = (HTTPError StatusMethodNotAllowed None, [])"
    by blast
  from method_gate [of ?get exampleEnv "[(''/assets'', ''/static'')]" ?opts "''/static/app.js''"] g
  have 2: "Server exampleEnv [(''/assets'', ''/static'')] ?opts ?get =
        (if containsDotDot (URLPath ?get) then (HTTPError StatusBadRequest (Some ''invalid URL path''), [])
         else mapAndServe exampleEnv (getServerOptions exampleEnv ?opts)
           (fst (parsePathMap [(''/assets'', ''/static'')])) (snd (parsePathMap [(''/assets'', ''/static'')])) ?get)"
    and 3: "\<forall>m. fst (Content exampleEnv ''/static/app.js'' ?opts ?get) \<noteq> HTTPError StatusMethodNotAllowed m"
    by blast+
  show ?thesis
    using 1 2 3 nd run by simp
qed

text \<open>
  C4 (as amended). For every \<open>GET\<close> or \<open>HEAD\<close> request whose URL path has a \<open>..\<close>
  segment between slashes, the \<open>Server\<close> handler returns \<open>BadRequest\<close> (400), whatever
  the mapping table, the options and the file system are, with an empty trace: before
  any file is opened or \<open>Allow\<close> is called. (A request with another method gets 405
  first, as the counterexample shows.)
\<close>

theorem traversal_rejected_for_GET_and_HEAD:
  assumes "Method c = ''GET'' \<or> Method c = ''HEAD''"
    and "dotDotSegment isSlash (URLPath c)"
  shows "Server env pathMap opts c = (HTTPError StatusBadRequest (Some ''invalid URL path''), [])"
proof -
  from assms(2) have "containsDotDot (URLPath c)"
    by (rule slash_segment_rejected)
  with assms(1) show ?thesis
    by (auto simp: Server_cases)
qed

text \<open>The path of the specification's example, requested with \<open>GET\<close>.\<close>

theorem traversal_rejected_for_GET_and_HEAD_witness:
  "(Method (exampleRequest ''GET'' ''/css/../../etc/passwd'' []) = ''GET''
      \<or> Method (exampleRequest ''GET'' ''/css/../../etc/passwd'' []) = ''HEAD'')
   \<and> dotDotSegment isSlash (URLPath (exampleRequest ''GET'' ''/css/../../etc/passwd'' []))
   \<and> Server exampleEnv [(''/css'', ''/ui/css'')] ([] :: unit ServerOptions list)
        (exampleRequest ''GET'' ''/css/../../etc/passwd'' []) =
      (HTTPError StatusBadRequest (Some ''invalid URL path''), [])"
proof -
  let ?c = "exampleRequest ''GET'' ''/css/../../etc/passwd'' []"
  have m: "Method ?c = ''GET'' \<or> Method ?c = ''HEAD''"
    by (simp add: exampleRequest_def)
  have s: "dotDotSegment isSlash (URLPath ?c)"
    by (simp add: exampleRequest_def dotDotSegment_def isSlash_def)
  from traversal_rejected_for_GET_and_HEAD [OF m s] m s show ?thesis by blast
qed

text \<open>
  The same path requested with \<open>POST\<close>: the answer is \<open>MethodNotAllowed\<close>, not
  \<open>BadRequest\<close>.
\<close>

theorem traversal_POST_counterexample:
  "dotDotSegment isSlash (URLPath (exampleRequest ''POST'' ''/css/../../etc/passwd'' []))
   \<and> Server exampleEnv [(''/css'', ''/ui/css'')] ([] :: unit ServerOptions list)
        (exampleRequest ''POST'' ''/css/../../etc/passwd'' []) =
      (HTTPError StatusMethodNotAllowed None, [])
   \<and> HTTPError StatusMethodNotAllowed None \<noteq> HTTPError StatusBadRequest (Some ''invalid URL path'')
   \<and> StatusMethodNotAllowed \<noteq> StatusBadRequest"
  by (simp add: Server_cases exampleRequest_def dotDotSegment_def isSlash_def
      StatusMethodNotAllowed_def StatusBadRequest_def)

lemma serverDir_eq:
  "\<lparr>dir = RootPath options,
     encodings = negotiateEncodings env c (case Compression options of None \<Rightarrow> [] | Some es \<Rightarrow> es)\<rparr>
   = serverDir env options c"
  by (simp add: serverDir_def)

lemma serveMapped_catch_all:
  assumes "fst (Open env (serverDir env options c) p) = Inl err" and "CatchAllFile options \<noteq> []"
  shows "serveMapped env options c p =
     (fst (serveFile env (serverDir env options c) (CatchAllFile options)),
      snd (Open env (serverDir env options c) p) @ snd (serveFile env (serverDir env options c) (CatchAllFile options)))"
proof -
  obtain tr where o: "Open env (serverDir env options c) p = (Inl err, tr)"
    using assms(1) by (cases "Open env (serverDir env options c) p") auto
  show ?thesis
    using assms(2) by (simp add: serveMapped_def Let_def serverDir_eq o split: prod.splits)
qed

lemma mapAndServe_allowed:
  assumes "matchPath (URLPath c) from to = Some (p, True)" and "allowed options c p"
  shows "mapAndServe env options from to c =
     (fst (serveMapped env options c p), allowTrace options p @ snd (serveMapped env options c p))"
  using assms
  by (auto simp: mapAndServe_def allowed_def allowTrace_def split: option.splits prod.splits)

text \<open>
  C3 (as amended). With \<open>CatchAllFile\<close> configured, a \<open>GET\<close> or \<open>HEAD\<close> request without a
  \<open>..\<close> segment whose path is matched by a registered prefix, passes the \<open>Allow\<close> gate,
  and whose mapped file cannot be opened (no encoded variant and not the plain file) is
  answered by \<open>serveFile\<close> on the catch-all file: opened through the same
  \<open>compressionDir\<close>, \<open>NotFound\<close> when it cannot be opened or stat'ed or is a directory (no
  index file and no second fallback), and served with the \<open>Content-Encoding\<close> of the
  chosen variant otherwise. A request whose path no registered prefix matches gets a
  bare \<open>NotFound\<close> and no file is opened, the catch-all file included.
\<close>

theorem catch_all_after_failed_open:
  assumes "Method c = ''GET'' \<or> Method c = ''HEAD''"
    and "\<not> containsDotDot (URLPath c)"
    and "options = getServerOptions env opts"
    and "CatchAllFile options \<noteq> []"
  shows "((\<forall>q\<in>set (map fst pathMap). \<not> prefix q (URLPath c)) \<longrightarrow>
            Server env pathMap opts c = (HTTPError StatusNotFound None, []))
     \<and> (Match pathMap (URLPath c) = Some (p, True) \<and> allowed options c p
          \<and> fst (Open env (serverDir env options c) p) = Inl err \<longrightarrow>
            Server env pathMap opts c =
              (fst (serveFile env (serverDir env options c) (CatchAllFile options)),
               allowTrace options p @ snd (Open env (serverDir env options c) p)
                 @ snd (Open env (serverDir env options c) (CatchAllFile options))))
     \<and> fst (serveFile env d q) =
          (case fst (Open env d q) of
             Inl e \<Rightarrow> HTTPError StatusNotFound (Some e)
           | Inr (file, enc) \<Rightarrow>
               (case Stat file of
                  Inl e \<Rightarrow> HTTPError StatusNotFound (Some e)
                | Inr fstat \<Rightarrow>
                    if IsDir fstat then HTTPError StatusNotFound None
                    else ServeContent (if enc \<noteq> [] then Some enc else None) q (ModTime fstat) file))"
proof (intro conjI impI)
  have srv: "Server env pathMap opts c =
      mapAndServe env options (fst (parsePathMap pathMap)) (snd (parsePathMap pathMap)) c"
    using assms(1,2) by (auto simp: Server_cases assms(3))
  {
    assume "\<forall>q\<in>set (map fst pathMap). \<not> prefix q (URLPath c)"
    then have "Match pathMap (URLPath c) = Some ([], False)" by (rule Match_no_prefix)
    then show "Server env pathMap opts c = (HTTPError StatusNotFound None, [])"
      by (simp add: srv mapAndServe_def Match_matchPath)
  }
  {
    assume h: "Match pathMap (URLPath c) = Some (p, True) \<and> allowed options c p
          \<and> fst (Open env (serverDir env options c) p) = Inl err"
    then have m: "matchPath (URLPath c) (fst (parsePathMap pathMap)) (snd (parsePathMap pathMap)) = Some (p, True)"
      by (simp add: Match_matchPath)
    from h have al: "allowed options c p" and op: "fst (Open env (serverDir env options c) p) = Inl err"
      by simp_all
    show "Server env pathMap opts c =
              (fst (serveFile env (serverDir env options c) (CatchAllFile options)),
               allowTrace options p @ snd (Open env (serverDir env options c) p)
                 @ snd (Open env (serverDir env options c) (CatchAllFile options)))"
      unfolding srv mapAndServe_allowed [OF m al] serveMapped_catch_all [OF op assms(4)]
      by (simp add: serveFile_trace)
  }
  show "fst (serveFile env d q) =
          (case fst (Open env d q) of
             Inl e \<Rightarrow> HTTPError StatusNotFound (Some e)
           | Inr (file, enc) \<Rightarrow>
               (case Stat file of
                  Inl e \<Rightarrow> HTTPError StatusNotFound (Some e)
                | Inr fstat \<Rightarrow>
                    if IsDir fstat then HTTPError StatusNotFound None
                    else ServeContent (if enc \<noteq> [] then Some enc else None) q (ModTime fstat) file))"
    by (rule serveFile_outcome)
qed


text \<open>
  In the example world with \<open>CatchAllFile = "404.html"\<close>: a path under the registered
  prefix whose file is missing is answered with the catch-all file, and a path under no
  registered prefix with a bare \<open>NotFound\<close>.
\<close>

theorem catch_all_after_failed_open_witness:
  "Server exampleEnv [(''/assets'', ''/static'')]
      [zeroServerOptions\<lparr>CatchAllFile := ''404.html''\<rparr> :: unit ServerOptions]
      (exampleRequest ''GET'' ''/assets/missing.js'' []) =
     (ServeContent None ''404.html'' 1700000000 (plainFile ''lost''),
      [OpenFile ''/srv'' ''/static/missing.js'', OpenFile ''/srv'' ''404.html''])
   \<and> Server exampleEnv [(''/assets'', ''/static'')]
      [zeroServerOptions\<lparr>CatchAllFile := ''404.html''\<rparr> :: unit ServerOptions]
      (exampleRequest ''GET'' ''/missing/page.html'' []) = (HTTPError StatusNotFound None, [])"
proof -
  let ?opts = "[zeroServerOptions\<lparr>CatchAllFile := ''404.html''\<rparr> :: unit ServerOptions]"
  let ?options = "getServerOptions exampleEnv ?opts"
  let ?pm = "[(''/assets'', ''/static'')]"
  let ?c = "exampleRequest ''GET'' ''/assets/missing.js'' []"
  let ?c' = "exampleRequest ''GET'' ''/missing/page.html'' []"
  have m: "Method ?c = ''GET'' \<or> Method ?c = ''HEAD''" "Method ?c' = ''GET'' \<or> Method ?c' = ''HEAD''"
    by (simp_all add: exampleRequest_def)
  have nd: "\<not> containsDotDot (URLPath ?c)" "\<not> containsDotDot (URLPath ?c')"
    by (simp_all add: example_eval)
  have ca: "CatchAllFile ?options \<noteq> []"
    by (simp add: example_eval)
  have nomatch: "\<forall>q\<in>set (map fst ?pm). \<not> prefix q (URLPath ?c')"
    by (simp add: exampleRequest_def)
  have found: "Match ?pm (URLPath ?c) = Some (''/static/missing.js'', True)
      \<and> allowed ?options ?c ''/static/missing.js''
      \<and> fst (Open exampleEnv (serverDir exampleEnv ?options ?c) ''/static/missing.js'') = Inl ''file does not exist''"
    by (simp add: example_eval Match_def allowed_def serverDir_def)
  have served: "fst (serveFile exampleEnv (serverDir exampleEnv ?options ?c) (CatchAllFile ?options)) =
      ServeContent None ''404.html'' 1700000000 (plainFile ''lost'')"
    by (simp add: example_eval serverDir_def)
  have trace: "allowTrace ?options ''/static/missing.js''
      @ snd (Open exampleEnv (serverDir exampleEnv ?options ?c) ''/static/missing.js'')
      @ snd (Open exampleEnv (serverDir exampleEnv ?options ?c) (CatchAllFile ?options)) =
      [OpenFile ''/srv'' ''/static/missing.js'', OpenFile ''/srv'' ''404.html'']"
    by (simp add: example_eval serverDir_def allowTrace_def)
  from catch_all_after_failed_open [OF m(1) nd(1) refl ca, of ?pm "''/static/missing.js''" "''file does not exist''"] found
  have 1: "Server exampleEnv ?pm ?opts ?c =
      (fst (serveFile exampleEnv (serverDir exampleEnv ?options ?c) (CatchAllFile ?options)),
       allowTrace ?options ''/static/missing.js''
         @ snd (Open exampleEnv (serverDir exampleEnv ?options ?c) ''/static/missing.js'')
         @ snd (Open exampleEnv (serverDir exampleEnv ?options ?c) (CatchAllFile ?options)))"
    by blast
  from catch_all_after_failed_open [OF m(2) nd(2) refl ca, of ?pm] nomatch
  have 2: "Server exampleEnv ?pm ?opts ?c' = (HTTPError StatusNotFound None, [])"
    by blast
  show ?thesis
    unfolding 1 2 served trace by simp
qed

text \<open>
  The catch-all file is configured and can be opened, the path matches no registered
  prefix, and the answer is a bare \<open>NotFound\<close> with no file opened.
\<close>

theorem catch_all_no_match_counterexample:
  "CatchAllFile (getServerOptions exampleEnv
      [zeroServerOptions\<lparr>CatchAllFile := ''404.html''\<rparr> :: unit ServerOptions]) = ''404.html''
   \<and> opens exampleEnv ''/srv'' ''404.html''
   \<and> Match [(''/assets'', ''/static'')] ''/missing/page.html'' = Some ([], False)
   \<and> Server exampleEnv [(''/assets'', ''/static'')]
      [zeroServerOptions\<lparr>CatchAllFile := ''404.html''\<rparr> :: unit ServerOptions]
      (exampleRequest ''GET'' ''/missing/page.html'' []) = (HTTPError StatusNotFound None, [])"
  by (simp add: example_eval Match_def opens_def)

lemma isSlashRune_eq: "isSlashRune = (\<lambda>r. r = CHR ''/'' \<or> r = CHR 0x5C)"
  by (rule ext) (simp add: isSlashRune_def)

lemma delimited_segment_rejected:
  assumes sub: "\<And>r. f r \<Longrightarrow> r = CHR ''/'' \<or> r = CHR 0x5C" and seg: "dotDotSegment f v"
  shows "containsDotDot v"
  unfolding containsDotDot_iff
proof (rule dotDotSegment_mono [OF _ _ seg])
  show "isSlashRune r" if "f r" for r
    using sub [OF that] by (simp add: isSlashRune_def)
  show "\<not> isSlashRune CHR ''.''"
    by (simp add: isSlashRune_def)
qed

lemma serveMapped_opens:
  "prefix (snd (Open env (serverDir env options c) p)) (snd (serveMapped env options c p))"
  by (cases "Open env (serverDir env options c) p")
    (auto simp: serveMapped_def Let_def serverDir_eq split: sum.splits prod.splits)

lemma mapAndServe_vetoed:
  assumes "matchPath (URLPath c) from to = Some (p, True)" and "\<not> allowed options c p"
  shows "mapAndServe env options from to c = (HTTPError StatusNotFound None, allowTrace options p)"
  using assms
  by (auto simp: mapAndServe_def allowed_def allowTrace_def split: option.splits)

lemma mapAndServe_no_match:
  assumes "matchPath (URLPath c) from to = Some (p, False)"
  shows "mapAndServe env options from to c = (HTTPError StatusNotFound None, [])"
  using assms by (simp add: mapAndServe_def)

text \<open>
  C10 (as amended). \<open>containsDotDot\<close> holds exactly for the paths with a complete \<open>..\<close>
  segment, the segments being delimited by a slash or by a backslash; a \<open>..\<close> between
  backslashes is rejected as one between slashes is. A request whose path has \<open>..\<close>
  only inside longer segments never gets \<open>BadRequest\<close> from \<open>Server\<close> or \<open>Content\<close>. If its
  method is \<open>GET\<close> or \<open>HEAD\<close>, \<open>Server\<close> goes on to the mapping: a path that no
  registered prefix matches gets \<open>NotFound\<close> with no file opened, a mapped path that
  \<open>Allow\<close> vetoes gets \<open>NotFound\<close> after the call of \<open>Allow\<close>, and for a mapped path that
  is allowed the handler opens the mapped file (the trace starts with the call of
  \<open>Allow\<close>, if there is a callback, and the attempts of \<open>Open\<close> on the mapped path,
  which are never none); and \<open>Content\<close> goes on to \<open>serveFile\<close>, which opens its file.
  (A request with another method gets 405 first, as the counterexample shows.)
\<close>

theorem only_complete_dotdot_segments_rejected:
  assumes "options = getServerOptions env opts"
    and "dp = contentDir env options path"
    and "d = \<lparr>dir = fst dp,
          encodings = negotiateEncodings env c (case Compression options of None \<Rightarrow> [] | Some es \<Rightarrow> es)\<rparr>"
  shows "(containsDotDot v \<longleftrightarrow> dotDotSegment (\<lambda>r. r = CHR ''/'' \<or> r = CHR 0x5C) v)
   \<and> (dotDotSegment (\<lambda>r. r = CHR ''/'') v \<longrightarrow> containsDotDot v)
   \<and> (dotDotSegment (\<lambda>r. r = CHR 0x5C) v \<longrightarrow> containsDotDot v)
   \<and> (\<not> dotDotSegment (\<lambda>r. r = CHR ''/'' \<or> r = CHR 0x5C) (URLPath c) \<longrightarrow>
        (\<forall>m. fst (Server env pathMap opts c) \<noteq> HTTPError StatusBadRequest m)
        \<and> (\<forall>m. fst (Content env path opts c) \<noteq> HTTPError StatusBadRequest m)
        \<and> (Method c = ''GET'' \<or> Method c = ''HEAD'' \<longrightarrow>
             ((\<forall>q\<in>set (map fst pathMap). \<not> prefix q (URLPath c)) \<longrightarrow>
                Server env pathMap opts c = (HTTPError StatusNotFound None, []))
             \<and> (\<forall>p. Match pathMap (URLPath c) = Some (p, True) \<longrightarrow>
                  Server env pathMap opts c =
                    (if allowed options c p
                     then (fst (serveMapped env options c p),
                           allowTrace options p @ snd (serveMapped env options c p))
                     else (HTTPError StatusNotFound None, allowTrace options p))
                  \<and> prefix (snd (Open env (serverDir env options c) p))
                       (snd (serveMapped env options c p))
                  \<and> snd (Open env (serverDir env options c) p) \<noteq> [])
             \<and> Content env path opts c = serveFile env d (snd dp)
             \<and> snd (Content env path opts c) = snd (Open env d (snd dp))
             \<and> snd (Open env d (snd dp)) \<noteq> []))"
proof (intro conjI impI allI)
  show "containsDotDot v \<longleftrightarrow> dotDotSegment (\<lambda>r. r = CHR ''/'' \<or> r = CHR 0x5C) v"
    using containsDotDot_iff [of v] by (simp only: isSlashRune_eq)
  show "containsDotDot v" if "dotDotSegment (\<lambda>r. r = CHR ''/'') v"
    by (rule delimited_segment_rejected [where f = "\<lambda>r. r = CHR ''/''", OF _ that]) simp
  show "containsDotDot v" if "dotDotSegment (\<lambda>r. r = CHR 0x5C) v"
    by (rule delimited_segment_rejected [where f = "\<lambda>r. r = CHR 0x5C", OF _ that]) simp
next
  fix m
  assume "\<not> dotDotSegment (\<lambda>r. r = CHR ''/'' \<or> r = CHR 0x5C) (URLPath c)"
  then have nd: "\<not> containsDotDot (URLPath c)"
    by (simp add: containsDotDot_iff isSlashRune_eq)
  show "fst (Server env pathMap opts c) \<noteq> HTTPError StatusBadRequest m"
  proof
    assume "fst (Server env pathMap opts c) = HTTPError StatusBadRequest m"
    from Server_status [OF this] nd status_distinct show False by auto
  qed
  show "fst (Content env path opts c) \<noteq> HTTPError StatusBadRequest m"
  proof
    assume "fst (Content env path opts c) = HTTPError StatusBadRequest m"
    from Content_status [OF this] nd status_distinct show False by auto
  qed
next
  assume "\<not> dotDotSegment (\<lambda>r. r = CHR ''/'' \<or> r = CHR 0x5C) (URLPath c)"
  then have nd: "\<not> containsDotDot (URLPath c)"
    by (simp add: containsDotDot_iff isSlashRune_eq)
  assume ok: "Method c = ''GET'' \<or> Method c = ''HEAD''"
  have srv: "Server env pathMap opts c =
      mapAndServe env options (fst (parsePathMap pathMap)) (snd (parsePathMap pathMap)) c"
    using ok nd by (auto simp: Server_cases assms(1))
  have cnt: "Content env path opts c = contentServe env options dp c"
    using ok nd by (auto simp: Content_cases assms(1,2))
  {
    assume "\<forall>q\<in>set (map fst pathMap). \<not> prefix q (URLPath c)"
    then have "Match pathMap (URLPath c) = Some ([], False)" by (rule Match_no_prefix)
    then show "Server env pathMap opts c = (HTTPError StatusNotFound None, [])"
      by (simp add: srv mapAndServe_no_match Match_matchPath)
  }
  {
    fix p
    assume "Match pathMap (URLPath c) = Some (p, True)"
    then have m: "matchPath (URLPath c) (fst (parsePathMap pathMap)) (snd (parsePathMap pathMap)) = Some (p, True)"
      by (simp add: Match_matchPath)
    show "Server env pathMap opts c =
        (if allowed options c p
         then (fst (serveMapped env options c p),
               allowTrace options p @ snd (serveMapped env options c p))
         else (HTTPError StatusNotFound None, allowTrace options p))"
      unfolding srv
      by (cases "allowed options c p")
        (simp_all add: mapAndServe_allowed [OF m] mapAndServe_vetoed [OF m])
    show "prefix (snd (Open env (serverDir env options c) p)) (snd (serveMapped env options c p))"
      by (rule serveMapped_opens)
    show "snd (Open env (serverDir env options c) p) \<noteq> []"
      by (rule Open_trace_not_Nil)
  }
  show c1: "Content env path opts c = serveFile env d (snd dp)"
    by (simp add: cnt contentServe_def Let_def assms(3))
  show "snd (Content env path opts c) = snd (Open env d (snd dp))"
    by (simp only: c1 serveFile_trace)
  show "snd (Open env d (snd dp)) \<noteq> []"
    by (rule Open_trace_not_Nil)
qed

text \<open>
  \<open>GET /a..b/c.css\<close> in the example world: the path passes the check, \<open>Server\<close> maps it
  and tries to open the mapped file, with and without an \<open>Allow\<close> callback, and
  \<open>Content\<close> tries to open its file; \<open>GET /x..y\<close> is under no registered prefix; and
  \<open>..\<close> between backslashes and between slashes is rejected.
\<close>

theorem only_complete_dotdot_segments_rejected_witness:
  "\<not> containsDotDot ''/a..b/c.css''
   \<and> containsDotDot (''/a'' @ [CHR 0x5C] @ ''..'' @ [CHR 0x5C] @ ''b'')
   \<and> containsDotDot ''/a/../b''
   \<and> Server exampleEnv [(''/a'', ''/static'')] ([] :: unit ServerOptions list)
        (exampleRequest ''GET'' ''/a..b/c.css'' []) =
      (HTTPError StatusNotFound (Some ''file does not exist''), [OpenFile ''/srv'' ''/static..b/c.css''])
   \<and> Server exampleEnv [(''/a'', ''/static'')]
        [zeroServerOptions\<lparr>Allow := Some (\<lambda>c p. False)\<rparr> :: unit ServerOptions]
        (exampleRequest ''GET'' ''/a..b/c.css'' []) =
      (HTTPError StatusNotFound None, [AllowCall ''/static..b/c.css''])
   \<and> Server exampleEnv [(''/a'', ''/static'')] ([] :: unit ServerOptions list)
        (exampleRequest ''GET'' ''/x..y'' []) = (HTTPError StatusNotFound None, [])
   \<and> Content exampleEnv ''/static/app.js'' ([] :: unit ServerOptions list)
        (exampleRequest ''GET'' ''/a..b/c.css'' []) =
      (HTTPError StatusNotFound (Some ''file does not exist''), [OpenFile ''/static/app.js'' []])"
proof -
  let ?c = "exampleRequest ''GET'' ''/a..b/c.css'' []"
  let ?x = "exampleRequest ''GET'' ''/x..y'' []"
  let ?opts = "[] :: unit ServerOptions list"
  let ?veto = "[zeroServerOptions\<lparr>Allow := Some (\<lambda>c p. False)\<rparr> :: unit ServerOptions]"
  let ?pm = "[(''/a'', ''/static'')]"
  let ?bs = "''/a'' @ [CHR 0x5C] @ ''..'' @ [CHR 0x5C] @ ''b''"
  let ?delim = "\<lambda>r. r = CHR ''/'' \<or> r = CHR 0x5C"
  let ?o = "getServerOptions exampleEnv ?opts"
  let ?ov = "getServerOptions exampleEnv ?veto"
  let ?dp = "contentDir exampleEnv ?o ''/static/app.js''"
  let ?d = "\<lambda>c. \<lparr>dir = fst ?dp,
      encodings = negotiateEncodings exampleEnv c (case Compression ?o of None \<Rightarrow> [] | Some es \<Rightarrow> es)\<rparr>"
  let ?dv = "\<lparr>dir = fst (contentDir exampleEnv ?ov ''/static/app.js''),
      encodings = negotiateEncodings exampleEnv ?c (case Compression ?ov of None \<Rightarrow> [] | Some es \<Rightarrow> es)\<rparr>"
  note main = only_complete_dotdot_segments_rejected
  note plain = main [OF refl refl refl, where env = exampleEnv and opts = ?opts
      and path = "''/static/app.js''" and pathMap = ?pm]
  note veto = main [OF refl refl refl, where env = exampleEnv and opts = ?veto
      and path = "''/static/app.js''" and pathMap = ?pm]
  have n: "\<not> dotDotSegment ?delim (URLPath ?c)" "\<not> dotDotSegment ?delim (URLPath ?x)"
    by (simp_all add: exampleRequest_def dotDotSegment_def)
  have g: "Method ?c = ''GET'' \<or> Method ?c = ''HEAD''" "Method ?x = ''GET'' \<or> Method ?x = ''HEAD''"
    by (simp_all add: exampleRequest_def)
  have b: "dotDotSegment (\<lambda>r. r = CHR 0x5C) ?bs" "dotDotSegment (\<lambda>r. r = CHR ''/'') ''/a/../b''"
    by (simp_all add: dotDotSegment_def)
  have nomatch: "\<forall>q\<in>set (map fst ?pm). \<not> prefix q (URLPath ?x)"
    by (simp add: exampleRequest_def)
  have mapped: "Match ?pm (URLPath ?c) = Some (''/static..b/c.css'', True)"
    by (simp add: example_eval Match_def)
  have 1: "\<not> containsDotDot ''/a..b/c.css''"
    using plain [where v = "''/a..b/c.css''" and c = ?c, THEN conjunct1] n(1) by (simp add: exampleRequest_def)
  have 2: "containsDotDot ?bs"
    by (rule plain [where v = ?bs and c = ?c, THEN conjunct2, THEN conjunct2, THEN conjunct1, THEN mp, OF b(1)])
  have 3: "containsDotDot ''/a/../b''"
    by (rule plain [where v = "''/a/../b''" and c = ?c, THEN conjunct2, THEN conjunct1, THEN mp, OF b(2)])
  note go = plain [where v = "[]" and c = ?c, THEN conjunct2, THEN conjunct2, THEN conjunct2, THEN mp, OF n(1),
      THEN conjunct2, THEN conjunct2, THEN mp, OF g(1)]
  note gov = veto [where v = "[]" and c = ?c, THEN conjunct2, THEN conjunct2, THEN conjunct2, THEN mp, OF n(1),
      THEN conjunct2, THEN conjunct2, THEN mp, OF g(1)]
  note gox = plain [where v = "[]" and c = ?x, THEN conjunct2, THEN conjunct2, THEN conjunct2, THEN mp, OF n(2),
      THEN conjunct2, THEN conjunct2, THEN mp, OF g(2)]
  have 4: "Server exampleEnv ?pm ?opts ?c =
      (if allowed ?o ?c ''/static..b/c.css''
       then (fst (serveMapped exampleEnv ?o ?c ''/static..b/c.css''),
             allowTrace ?o ''/static..b/c.css'' @ snd (serveMapped exampleEnv ?o ?c ''/static..b/c.css''))
       else (HTTPError StatusNotFound None, allowTrace ?o ''/static..b/c.css''))"
    by (rule go [THEN conjunct2, THEN conjunct1, rule_format, OF mapped, THEN conjunct1])
  have 5: "Server exampleEnv ?pm ?veto ?c =
      (if allowed ?ov ?c ''/static..b/c.css''
       then (fst (serveMapped exampleEnv ?ov ?c ''/static..b/c.css''),
             allowTrace ?ov ''/static..b/c.css'' @ snd (serveMapped exampleEnv ?ov ?c ''/static..b/c.css''))
       else (HTTPError StatusNotFound None, allowTrace ?ov ''/static..b/c.css''))"
    by (rule gov [THEN conjunct2, THEN conjunct1, rule_format, OF mapped, THEN conjunct1])
  have 6: "Server exampleEnv ?pm ?opts ?x = (HTTPError StatusNotFound None, [])"
    by (rule gox [THEN conjunct1, THEN mp, OF nomatch])
  have 7: "Content exampleEnv ''/static/app.js'' ?opts ?c = serveFile exampleEnv (?d ?c) (snd ?dp)"
    by (rule go [THEN conjunct2, THEN conjunct2, THEN conjunct1])
  have e4: "(if allowed ?o ?c ''/static..b/c.css''
       then (fst (serveMapped exampleEnv ?o ?c ''/static..b/c.css''),
             allowTrace ?o ''/static..b/c.css'' @ snd (serveMapped exampleEnv ?o ?c ''/static..b/c.css''))
       else (HTTPError StatusNotFound None, allowTrace ?o ''/static..b/c.css'')) =
      (HTTPError StatusNotFound (Some ''file does not exist''), [OpenFile ''/srv'' ''/static..b/c.css''])"
    by (simp add: example_eval allowed_def allowTrace_def)
  have e5: "(if allowed ?ov ?c ''/static..b/c.css''
       then (fst (serveMapped exampleEnv ?ov ?c ''/static..b/c.css''),
             allowTrace ?ov ''/static..b/c.css'' @ snd (serveMapped exampleEnv ?ov ?c ''/static..b/c.css''))
       else (HTTPError StatusNotFound None, allowTrace ?ov ''/static..b/c.css'')) =
      (HTTPError StatusNotFound None, [AllowCall ''/static..b/c.css''])"
    by (simp add: example_eval allowed_def allowTrace_def)
  have e7: "serveFile exampleEnv (?d ?c) (snd ?dp) =
      (HTTPError StatusNotFound (Some ''file does not exist''), [OpenFile ''/static/app.js'' []])"
    by (simp add: example_eval)
  from 1 2 3 show ?thesis
    unfolding 4 5 6 7 e4 e5 e7 by simp
qed

text \<open>
  \<open>POST /a..b/c.css\<close>: the path has no \<open>..\<close> segment, and the request gets 405 from both
  handlers with nothing mapped and no file opened. \<open>GET /x..y\<close> with only \<open>/a\<close>
  registered: \<open>Server\<close> answers \<open>NotFound\<close> and opens no file.
\<close>

theorem dotdot_inside_segment_counterexample:
  "\<not> dotDotSegment (\<lambda>r. r = CHR ''/'' \<or> r = CHR 0x5C) ''/a..b/c.css''
   \<and> Server exampleEnv [(''/a'', ''/static'')] ([] :: unit ServerOptions list)
        (exampleRequest ''POST'' ''/a..b/c.css'' []) = (HTTPError StatusMethodNotAllowed None, [])
   \<and> Content exampleEnv ''/static/app.js'' ([] :: unit ServerOptions list)
        (exampleRequest ''POST'' ''/a..b/c.css'' []) = (HTTPError StatusMethodNotAllowed None, [])
   \<and> \<not> dotDotSegment (\<lambda>r. r = CHR ''/'' \<or> r = CHR 0x5C) ''/x..y''
   \<and> Server exampleEnv [(''/a'', ''/static'')] ([] :: unit ServerOptions list)
        (exampleRequest ''GET'' ''/x..y'' []) = (HTTPError StatusNotFound None, [])"
  by (simp add: example_eval)

section \<open>Theorems about Duration.Round and the whole seconds\<close>

lemma sint_wi:
  "- 9223372036854775808 \<le> k \<Longrightarrow> k < 9223372036854775808 \<Longrightarrow> sint (word_of_int k :: 64 word) = k"
  by (simp add: signed_of_int signed_take_bit_int_eq_self)

lemma wi_shift: "(word_of_int (k + 18446744073709551616) :: 64 word) = word_of_int k"
proof -
  have "(word_of_int (k + 2 ^ LENGTH(64)) :: 64 word) = word_of_int k + word_of_int (2 ^ LENGTH(64))"
    by (simp only: of_int_add)
  also have "\<dots> = word_of_int k" by (simp only: word_of_int_2p_len add_0_right)
  finally show ?thesis by simp
qed

lemma sint_wi_low:
  assumes "- 27670116110564327424 \<le> k" "k < - 9223372036854775808"
  shows "sint (word_of_int k :: 64 word) = k + 18446744073709551616"
proof -
  have "sint (word_of_int (k + 18446744073709551616) :: 64 word) = k + 18446744073709551616"
    using assms by (intro sint_wi) simp_all
  then show ?thesis by (simp only: wi_shift)
qed

lemma sint_wi_high:
  assumes "9223372036854775808 \<le> k" "k < 27670116110564327424"
  shows "sint (word_of_int k :: 64 word) = k - 18446744073709551616"
proof -
  have a: "sint (word_of_int (k - 18446744073709551616) :: 64 word) = k - 18446744073709551616"
    using assms by (intro sint_wi) simp_all
  have "(word_of_int (k - 18446744073709551616 + 18446744073709551616) :: 64 word) =
      word_of_int (k - 18446744073709551616)"
    by (rule wi_shift)
  then have b: "(word_of_int (k - 18446744073709551616) :: 64 word) = word_of_int k"
    by (simp only: diff_add_cancel)
  from a show ?thesis unfolding b .
qed

lemma uint_wi:
  "0 \<le> k \<Longrightarrow> k < 18446744073709551616 \<Longrightarrow> uint (word_of_int k :: 64 word) = k"
  by (simp add: uint_word_of_int_eq take_bit_int_eq_self)

lemma sint_bounds64: "- 9223372036854775808 \<le> sint (d :: 64 word)" "sint (d :: 64 word) < 9223372036854775808"
  using sint_ge [of d] sint_lt [of d] by simp_all

lemma sint_Second: "sint Second = 1000000000"
  by (simp add: Second_def)

lemma uint_Second: "uint Second = 1000000000"
  by (simp add: Second_def)

lemma Second_wi: "Second = word_of_int 1000000000"
  by (simp add: Second_def)

lemma sint_minDuration: "sint minDuration = - 9223372036854775808"
  unfolding minDuration_def by (subst sint_wi) simp_all

lemma sint_maxDuration: "sint maxDuration = 9223372036854775807"
  unfolding maxDuration_def by (subst sint_wi) simp_all


lemma lessThanHalf_wi:
  assumes "0 \<le> r" "r < 1000000000"
  shows "lessThanHalf (word_of_int r) Second \<longleftrightarrow> 2 * r < 1000000000"
proof -
  have "(word_of_int r + word_of_int r :: 64 word) = word_of_int (2 * r)" by simp
  moreover have "uint (word_of_int (2 * r) :: 64 word) = 2 * r"
    using assms by (intro uint_wi) simp_all
  ultimately show ?thesis
    by (simp only: lessThanHalf_def word_less_alt uint_Second)
qed

lemma Round_Second_nonneg:
  assumes x: "0 \<le> sint d"
  shows "sint (Round d Second) =
     (if 2 * (sint d mod 1000000000) < 1000000000 then sint d - sint d mod 1000000000
      else if sint d + 1000000000 - sint d mod 1000000000 < 9223372036854775808
           then sint d + 1000000000 - sint d mod 1000000000
           else 9223372036854775807)"
proof -
  define x where "x = sint d"
  define r where "r = x mod 1000000000"
  have d: "d = word_of_int x" by (simp add: x_def)
  have xb: "0 \<le> x" "x < 9223372036854775808"
    using x sint_bounds64 [of d] by (simp_all add: x_def)
  have rb: "0 \<le> r" "r < 1000000000" "r \<le> x"
    using xb by (simp_all add: r_def zmod_le_nonneg_dividend)
  have c1: "\<not> Second \<le>s 0" by (simp add: word_sle_eq sint_Second)
  have c2: "\<not> d <s 0" using x by (simp add: word_sless_alt)
  have rem: "rem64 d Second = word_of_int r"
    using xb by (simp add: rem64_def sint_Second x_def [symmetric] r_def smod_int_alt_def sgn_if)
  have half: "lessThanHalf (word_of_int r) Second \<longleftrightarrow> 2 * r < 1000000000"
    using rb by (intro lessThanHalf_wi) simp_all
  have down: "d - word_of_int r = word_of_int (x - r)" by (simp add: d)
  have sdown: "sint (word_of_int (x - r) :: 64 word) = x - r"
    using xb rb by (intro sint_wi) simp_all
  have up: "d + Second - word_of_int r = word_of_int (x + 1000000000 - r)"
    by (simp add: d Second_wi)
  have sup: "sint (word_of_int (x + 1000000000 - r) :: 64 word) = x + 1000000000 - r"
    if "x + 1000000000 - r < 9223372036854775808"
    using xb rb that by (intro sint_wi) simp_all
  have sup': "sint (word_of_int (x + 1000000000 - r) :: 64 word) = x + 1000000000 - r - 18446744073709551616"
    if "\<not> x + 1000000000 - r < 9223372036854775808"
    using xb rb that by (intro sint_wi_high) simp_all
  have sd: "sint d = x" by (simp add: x_def)
  have cmp: "d <s word_of_int (x + 1000000000 - r) \<longleftrightarrow> x + 1000000000 - r < 9223372036854775808"
  proof (cases "x + 1000000000 - r < 9223372036854775808")
    case True
    then show ?thesis using rb by (simp only: word_sless_alt sup [OF True] sd) simp
  next
    case False
    then show ?thesis using xb rb by (simp only: word_sless_alt sup' [OF False] sd) simp
  qed
  have R: "Round d Second =
      (if 2 * r < 1000000000 then word_of_int (x - r)
       else if x + 1000000000 - r < 9223372036854775808 then word_of_int (x + 1000000000 - r)
       else maxDuration)"
    unfolding Round_def Let_def rem
    by (simp only: c1 c2 half down up cmp if_False)
  have "sint (Round d Second) =
      (if 2 * r < 1000000000 then x - r
       else if x + 1000000000 - r < 9223372036854775808 then x + 1000000000 - r
       else 9223372036854775807)"
    unfolding R using sdown sup sint_maxDuration by (simp only: split: if_split) simp
  then show ?thesis by (simp only: x_def r_def)
qed

lemma Round_Second_neg:
  assumes x: "sint d < 0"
  shows "sint (Round d Second) =
     (if 2 * (- sint d mod 1000000000) < 1000000000 then sint d + (- sint d) mod 1000000000
      else if - 9223372036854775808 \<le> sint d - 1000000000 + (- sint d) mod 1000000000
           then sint d - 1000000000 + (- sint d) mod 1000000000
           else - 9223372036854775808)"
proof -
  define x where "x = sint d"
  define r where "r = (- x) mod 1000000000"
  have d: "d = word_of_int x" by (simp add: x_def)
  have xb: "x < 0" "- 9223372036854775808 \<le> x"
    using x sint_bounds64 [of d] by (simp_all add: x_def)
  have rb: "0 \<le> r" "r < 1000000000" "r \<le> - x"
    using xb by (simp_all add: r_def zmod_le_nonneg_dividend)
  have c1: "\<not> Second \<le>s 0" by (simp add: word_sle_eq sint_Second)
  have c2: "d <s 0" using x by (simp add: word_sless_alt)
  have rem: "- rem64 d Second = word_of_int r"
    using xb by (simp add: rem64_def sint_Second x_def [symmetric] r_def smod_int_alt_def sgn_if)
  have half: "lessThanHalf (word_of_int r) Second \<longleftrightarrow> 2 * r < 1000000000"
    using rb by (intro lessThanHalf_wi) simp_all
  have up: "d + word_of_int r = word_of_int (x + r)" by (simp add: d)
  have sup: "sint (word_of_int (x + r) :: 64 word) = x + r"
    using xb rb by (intro sint_wi) simp_all
  have down: "d - Second + word_of_int r = word_of_int (x - 1000000000 + r)"
    by (simp add: d Second_wi)
  have sdown: "sint (word_of_int (x - 1000000000 + r) :: 64 word) = x - 1000000000 + r"
    if "- 9223372036854775808 \<le> x - 1000000000 + r"
    using xb rb that by (intro sint_wi) simp_all
  have sdown': "sint (word_of_int (x - 1000000000 + r) :: 64 word) = x - 1000000000 + r + 18446744073709551616"
    if "\<not> - 9223372036854775808 \<le> x - 1000000000 + r"
    using xb rb that by (intro sint_wi_low) simp_all
  have sd: "sint d = x" by (simp add: x_def)
  have cmp: "word_of_int (x - 1000000000 + r) <s d \<longleftrightarrow> - 9223372036854775808 \<le> x - 1000000000 + r"
  proof (cases "- 9223372036854775808 \<le> x - 1000000000 + r")
    case True
    then show ?thesis using rb by (simp only: word_sless_alt sdown [OF True] sd) simp
  next
    case False
    then show ?thesis using xb rb by (simp only: word_sless_alt sdown' [OF False] sd) simp
  qed
  have R: "Round d Second =
      (if 2 * r < 1000000000 then word_of_int (x + r)
       else if - 9223372036854775808 \<le> x - 1000000000 + r then word_of_int (x - 1000000000 + r)
       else minDuration)"
    unfolding Round_def Let_def rem
    by (simp only: c1 c2 half down up cmp if_False if_True)
  have "sint (Round d Second) =
      (if 2 * r < 1000000000 then x + r
       else if - 9223372036854775808 \<le> x - 1000000000 + r then x - 1000000000 + r
       else - 9223372036854775808)"
    unfolding R using sdown sup sint_minDuration by (simp only: split: if_split) simp
  then show ?thesis by (simp only: x_def r_def)
qed


lemma sdiv_Second_nonneg: "0 \<le> y \<Longrightarrow> y sdiv 1000000000 = y div (1000000000 :: int)"
  by (simp add: signed_divide_int_def sgn_if)

lemma sdiv_Second_neg: "y \<le> 0 \<Longrightarrow> y sdiv 1000000000 = - ((- y) div (1000000000 :: int))"
  by (simp add: signed_divide_int_def sgn_if)

lemma sdiv_mult_Second: "(1000000000 * k) sdiv 1000000000 = (k :: int)"
  by (simp add: signed_divide_int_def sgn_if abs_mult)

lemma sdiv_mult_Second_neg: "(- (1000000000 * k)) sdiv 1000000000 = - (k :: int)"
  using sdiv_mult_Second [of "- k"] by simp

lemma half_up_div:
  fixes a :: int
  shows "(a + 500000000) div 1000000000 =
     (if 2 * (a mod 1000000000) < 1000000000 then a div 1000000000 else a div 1000000000 + 1)"
proof -
  define q where "q = a div 1000000000"
  define r where "r = a mod 1000000000"
  have a: "a = 1000000000 * q + r" by (simp add: q_def r_def)
  have rb: "0 \<le> r" "r < 1000000000" by (simp_all add: r_def)
  show ?thesis
  proof (cases "2 * r < 1000000000")
    case True
    have e: "a + 500000000 = 1000000000 * q + (r + 500000000)" by (simp add: a)
    have "0 \<le> r + 500000000" "r + 500000000 < 1000000000" using rb True by simp_all
    from int_div_pos_eq [OF e this] True show ?thesis by (simp add: q_def r_def)
  next
    case False
    have e: "a + 500000000 = 1000000000 * (q + 1) + (r - 500000000)" by (simp add: a)
    have "0 \<le> r - 500000000" "r - 500000000 < 1000000000" using rb False by simp_all
    from int_div_pos_eq [OF e this] False show ?thesis by (simp add: q_def r_def)
  qed
qed

lemma secondsInt64_Round_nonneg:
  assumes x: "0 \<le> sint d"
  shows "secondsInt64 (Round d Second) = roundedSeconds d"
proof -
  define a where "a = sint d"
  define q where "q = a div 1000000000"
  define r where "r = a mod 1000000000"
  have ab: "0 \<le> a" "a < 9223372036854775808"
    using x sint_bounds64 [of d] by (simp_all add: a_def)
  have a: "a = 1000000000 * q + r" by (simp add: q_def r_def)
  have rb: "0 \<le> r" "r < 1000000000" by (simp_all add: r_def)
  have qb: "0 \<le> q" using ab by (simp add: q_def pos_imp_zdiv_nonneg_iff)
  have whole: "wholeSeconds d = (if 2 * r < 1000000000 then q else q + 1)"
    using ab half_up_div [of a] by (simp add: wholeSeconds_def a_def [symmetric] q_def r_def)
  have rounded: "roundedSeconds d = min (wholeSeconds d) 9223372036"
    using ab by (simp add: roundedSeconds_def a_def [symmetric])
  have round: "sint (Round d Second) =
     (if 2 * r < 1000000000 then a - r
      else if a + 1000000000 - r < 9223372036854775808 then a + 1000000000 - r
      else 9223372036854775807)"
    using Round_Second_nonneg [OF x] by (simp only: a_def r_def)
  have down: "a - r = 1000000000 * q" by (simp add: a)
  have up: "a + 1000000000 - r = 1000000000 * (q + 1)" by (simp add: a)
  consider (lo) "2 * r < 1000000000"
    | (mid) "\<not> 2 * r < 1000000000" "1000000000 * (q + 1) < 9223372036854775808"
    | (sat) "\<not> 2 * r < 1000000000" "\<not> 1000000000 * (q + 1) < 9223372036854775808"
    by blast
  then show ?thesis
  proof cases
    case lo
    have "sint (Round d Second) = 1000000000 * q"
      by (simp only: round lo if_True down)
    then have "secondsInt64 (Round d Second) = q"
      by (simp only: secondsInt64_def sdiv_mult_Second sdiv_mult_Second_neg)
    moreover have "q \<le> 9223372036" using ab a rb by simp
    then have "roundedSeconds d = q" by (simp add: rounded whole lo)
    ultimately show ?thesis by simp
  next
    case mid
    have "sint (Round d Second) = 1000000000 * (q + 1)"
      by (simp only: round mid up if_True if_False)
    then have "secondsInt64 (Round d Second) = q + 1"
      by (simp only: secondsInt64_def sdiv_mult_Second sdiv_mult_Second_neg)
    moreover have "q + 1 \<le> 9223372036" using mid(2) by simp
    then have "roundedSeconds d = q + 1" by (simp add: rounded whole mid)
    ultimately show ?thesis by simp
  next
    case sat
    have "sint (Round d Second) = 9223372036854775807"
      by (simp only: round sat up if_False)
    then have "secondsInt64 (Round d Second) = 9223372036"
      by (simp add: secondsInt64_def sdiv_Second_nonneg)
    moreover have "9223372036 < q + 1" using sat(2) by simp
    then have "roundedSeconds d = 9223372036" by (simp add: rounded whole sat)
    ultimately show ?thesis by simp
  qed
qed

lemma secondsInt64_Round_neg:
  assumes x: "sint d < 0"
  shows "secondsInt64 (Round d Second) = roundedSeconds d"
proof -
  define a where "a = - sint d"
  define q where "q = a div 1000000000"
  define r where "r = a mod 1000000000"
  have ab: "0 < a" "a \<le> 9223372036854775808"
    using x sint_bounds64 [of d] by (simp_all add: a_def)
  have sd: "sint d = - a" by (simp add: a_def)
  have a: "a = 1000000000 * q + r" by (simp add: q_def r_def)
  have rb: "0 \<le> r" "r < 1000000000" by (simp_all add: r_def)
  have qb: "0 \<le> q" using ab by (simp add: q_def pos_imp_zdiv_nonneg_iff)
  have whole: "wholeSeconds d = - (if 2 * r < 1000000000 then q else q + 1)"
    using ab half_up_div [of a] by (simp add: wholeSeconds_def sd q_def r_def)
  have rounded: "roundedSeconds d = max (wholeSeconds d) (- 9223372036)"
    using ab by (simp add: roundedSeconds_def sd)
  have round: "sint (Round d Second) =
     (if 2 * r < 1000000000 then - a + r
      else if - 9223372036854775808 \<le> - a - 1000000000 + r then - a - 1000000000 + r
      else - 9223372036854775808)"
    using Round_Second_neg [OF x] by (simp only: sd r_def minus_minus)
  have up: "- a + r = - (1000000000 * q)" by (simp add: a)
  have down: "- a - 1000000000 + r = - (1000000000 * (q + 1))" by (simp add: a)
  consider (lo) "2 * r < 1000000000"
    | (mid) "\<not> 2 * r < 1000000000" "- 9223372036854775808 \<le> - (1000000000 * (q + 1))"
    | (sat) "\<not> 2 * r < 1000000000" "\<not> - 9223372036854775808 \<le> - (1000000000 * (q + 1))"
    by blast
  then show ?thesis
  proof cases
    case lo
    have "sint (Round d Second) = - (1000000000 * q)"
      by (simp only: round lo if_True up)
    then have "secondsInt64 (Round d Second) = - q"
      by (simp only: secondsInt64_def sdiv_mult_Second sdiv_mult_Second_neg)
    moreover have "q \<le> 9223372036" using ab a rb by simp
    then have "roundedSeconds d = - q" by (simp add: rounded whole lo)
    ultimately show ?thesis by simp
  next
    case mid
    have "sint (Round d Second) = - (1000000000 * (q + 1))"
      by (simp only: round mid down if_True if_False)
    then have "secondsInt64 (Round d Second) = - (q + 1)"
      by (simp only: secondsInt64_def sdiv_mult_Second sdiv_mult_Second_neg)
    moreover have "q + 1 \<le> 9223372036" using mid(2) by simp
    then have "roundedSeconds d = - (q + 1)" by (simp add: rounded whole mid)
    ultimately show ?thesis by simp
  next
    case sat
    have "sint (Round d Second) = - 9223372036854775808"
      by (simp only: round sat down if_False)
    then have "secondsInt64 (Round d Second) = - 9223372036"
      by (simp add: secondsInt64_def sdiv_Second_neg)
    moreover have "9223372036 < q + 1" using sat(2) by simp
    then have "roundedSeconds d = - 9223372036" by (simp add: rounded whole sat)
    ultimately show ?thesis by simp
  qed
qed

lemma secondsInt64_Round: "secondsInt64 (Round d Second) = roundedSeconds d"
  by (cases "0 \<le> sint d") (simp_all add: secondsInt64_Round_nonneg secondsInt64_Round_neg)

section \<open>Theorems about BuildHeaderValues\<close>

lemma if_append: "(if c then sb @ x else sb) = sb @ (if c then x else [])"
  by simp

lemma terminated_join:
  "concat (map (\<lambda>x. x @ sep) ds) = (if ds = [] then [] else joinWith sep ds @ sep)"
  by (induction sep ds rule: joinWith.induct) simp_all

lemma cut_terminated:
  assumes "length sep = 2"
  shows "(let v = concat (map (\<lambda>x. x @ sep) ds) in if length v < 2 then [] else take (length v - 2) v)
     = joinWith sep ds"
  using assms by (cases "ds = []") (simp_all add: terminated_join Let_def)

lemma terminated_flag: "concat (map (\<lambda>x. x @ sep) (flag b token)) = (if b then token @ sep else [])"
  by (simp add: flag_def)

lemma builder_contents:
  "concat (map (\<lambda>x. x @ '', '') (directives seconds t)) =
     (if Access t \<noteq> [] then Access t @ '', '' else [])
     @ (if MaxAge t \<noteq> 0 then ''max-age='' @ formatInt (seconds (MaxAge t)) @ '', '' else [])
     @ (if SMaxAge t \<noteq> 0 then ''s-max-age='' @ formatInt (seconds (SMaxAge t)) @ '', '' else [])
     @ (if NoCache t then ''no-cache, '' else [])
     @ (if NoStore t then ''no-store, '' else [])
     @ (if MustRevalidate t then ''must-revalidate, '' else [])
     @ (if ProxyRevalidate t then ''proxy-revalidate, '' else [])
     @ (if MustUnderstand t then ''must-understand, '' else [])
     @ (if NoTransform t then ''no-transform, '' else [])
     @ (if Immutable t then ''immutable, '' else [])"
proof -
  have a: "concat (map (\<lambda>x. x @ '', '') (accessDirective t)) = (if Access t \<noteq> [] then Access t @ '', '' else [])"
    by (simp add: accessDirective_def)
  have b: "concat (map (\<lambda>x. x @ '', '') (ageDirective seconds name d)) =
      (if d \<noteq> 0 then name @ ''='' @ formatInt (seconds d) @ '', '' else [])" for name d
    by (simp add: ageDirective_def)
  have c: "concat (map (\<lambda>x. x @ '', '') (flagDirectives t)) =
     (if NoCache t then ''no-cache, '' else [])
     @ (if NoStore t then ''no-store, '' else [])
     @ (if MustRevalidate t then ''must-revalidate, '' else [])
     @ (if ProxyRevalidate t then ''proxy-revalidate, '' else [])
     @ (if MustUnderstand t then ''must-understand, '' else [])
     @ (if NoTransform t then ''no-transform, '' else [])
     @ (if Immutable t then ''immutable, '' else [])"
    unfolding flagDirectives_def map_append concat_append terminated_flag
    by (simp only: append_Cons append_Nil)
  show ?thesis
    unfolding directives_def map_append concat_append a b c
    by (simp only: append_Cons append_Nil append_assoc)
qed

lemma BuildHeaderValues_builder:
  "BuildHeaderValues t =
     (let v = concat (map (\<lambda>x. x @ '', '') (directives (\<lambda>d. secondsInt64 (Round d Second)) t))
      in if length v < 2 then [] else take (length v - 2) v)"
  unfolding builder_contents BuildHeaderValues_def
  by (simp only: Let_def if_append append_Nil append_assoc)

lemma BuildHeaderValues_join:
  "BuildHeaderValues t = joinWith '', '' (directives roundedSeconds t)"
proof -
  have "(\<lambda>d. secondsInt64 (Round d Second)) = roundedSeconds"
    by (rule ext) (rule secondsInt64_Round)
  then show ?thesis
    unfolding BuildHeaderValues_builder by (simp only: cut_terminated [of "'', ''", simplified])
qed

lemma joinWith_Nil_iff:
  assumes "\<forall>x\<in>set ds. x \<noteq> []"
  shows "joinWith sep ds = [] \<longleftrightarrow> ds = []"
  using assms by (induction sep ds rule: joinWith.induct) simp_all

lemma decimal_not_Nil: "decimal n \<noteq> []"
  by (subst decimal.simps) simp

lemma formatInt_not_Nil: "formatInt i \<noteq> []"
  by (simp add: formatInt_def decimal_not_Nil)

lemma directives_nonempty_tokens: "\<forall>x\<in>set (directives seconds t). x \<noteq> []"
  by (auto simp: directives_def accessDirective_def ageDirective_def flagDirectives_def flag_def
      formatInt_not_Nil split: if_splits)

lemma directives_Nil_iff: "directives seconds t = [] \<longleftrightarrow> unsetOptions t"
  by (simp add: directives_def accessDirective_def ageDirective_def flagDirectives_def flag_def
      unsetOptions_def)

lemma roundedSeconds_whole:
  assumes "- 9223372036500000000 < sint d" "sint d < 9223372036500000000"
  shows "roundedSeconds d = wholeSeconds d"
proof (cases "0 \<le> sint d")
  case True
  have "(sint d + 500000000) div 1000000000 \<le> 9223372036999999999 div 1000000000"
    using assms by (intro zdiv_mono1) simp_all
  then show ?thesis using True by (simp add: roundedSeconds_def wholeSeconds_def)
next
  case False
  have "(- sint d + 500000000) div 1000000000 \<le> 9223372036999999999 div 1000000000"
    using assms by (intro zdiv_mono1) simp_all
  then show ?thesis using False by (simp add: roundedSeconds_def wholeSeconds_def)
qed

text \<open>
  C2 (as amended). \<open>BuildHeaderValues\<close> returns the empty string exactly when every field
  is unset, and for every \<open>Options\<close> it is the directives that are set, in the fixed
  order (access token, \<open>max-age\<close>, \<open>s-max-age\<close>, then the seven flags), joined by
  \<open>", "\<close>, a directive that is zero, false or empty being left out. The seconds of
  \<open>max-age\<close> and \<open>s-max-age\<close> are the duration rounded to whole seconds, halves away from
  zero, for every duration that is more than half a second inside the \<open>int64\<close> range
  of nanoseconds; the durations beyond give 9223372036 and -9223372036 seconds, since
  \<open>Round\<close> saturates there and the conversion truncates.
\<close>

theorem BuildHeaderValues_directives:
  "(BuildHeaderValues t = [] \<longleftrightarrow> unsetOptions t)
   \<and> BuildHeaderValues t = joinWith '', '' (directives roundedSeconds t)
   \<and> (- 9223372036500000000 < sint (MaxAge t) \<and> sint (MaxAge t) < 9223372036500000000
      \<and> - 9223372036500000000 < sint (SMaxAge t) \<and> sint (SMaxAge t) < 9223372036500000000
      \<longrightarrow> BuildHeaderValues t = joinWith '', '' (directives wholeSeconds t))"
proof (intro conjI impI)
  show "BuildHeaderValues t = [] \<longleftrightarrow> unsetOptions t"
    unfolding BuildHeaderValues_join
    by (simp only: joinWith_Nil_iff [OF directives_nonempty_tokens] directives_Nil_iff)
  show "BuildHeaderValues t = joinWith '', '' (directives roundedSeconds t)"
    by (rule BuildHeaderValues_join)
next
  assume "- 9223372036500000000 < sint (MaxAge t) \<and> sint (MaxAge t) < 9223372036500000000
      \<and> - 9223372036500000000 < sint (SMaxAge t) \<and> sint (SMaxAge t) < 9223372036500000000"
  then have "roundedSeconds (MaxAge t) = wholeSeconds (MaxAge t)"
    "roundedSeconds (SMaxAge t) = wholeSeconds (SMaxAge t)"
    by (simp_all add: roundedSeconds_whole)
  then have "directives roundedSeconds t = directives wholeSeconds t"
    by (simp add: directives_def ageDirective_def)
  then show "BuildHeaderValues t = joinWith '', '' (directives wholeSeconds t)"
    by (simp only: BuildHeaderValues_join)
qed

lemmas directive_eval = directives_def accessDirective_def ageDirective_def flagDirectives_def
  flag_def formatInt_def decimal.simps digitChar_def wholeSeconds_def roundedSeconds_def
  AccessPublic_def

text \<open>The cases \<open>all\<close> and \<open>empty\<close> of the package's test.\<close>

theorem BuildHeaderValues_directives_witness:
  "BuildHeaderValues exampleOptions =
     ''public, max-age=300, s-max-age=600, no-cache, no-store, must-revalidate, proxy-revalidate, must-understand, no-transform, immutable''
   \<and> BuildHeaderValues noOptions = []"
proof -
  have r: "- 9223372036500000000 < sint (MaxAge exampleOptions) \<and> sint (MaxAge exampleOptions) < 9223372036500000000
      \<and> - 9223372036500000000 < sint (SMaxAge exampleOptions) \<and> sint (SMaxAge exampleOptions) < 9223372036500000000"
    by (simp add: exampleOptions_def)
  have 1: "BuildHeaderValues exampleOptions = joinWith '', '' (directives wholeSeconds exampleOptions)"
    by (rule BuildHeaderValues_directives [THEN conjunct2, THEN conjunct2, THEN mp, OF r])
  have u: "unsetOptions noOptions" by (simp add: unsetOptions_def noOptions_def)
  have 2: "BuildHeaderValues noOptions = []"
    using u by (simp only: BuildHeaderValues_directives [THEN conjunct1])
  have 3: "joinWith '', '' (directives wholeSeconds exampleOptions) =
     ''public, max-age=300, s-max-age=600, no-cache, no-store, must-revalidate, proxy-revalidate, must-understand, no-transform, immutable''"
    by (simp add: exampleOptions_def directive_eval)
  show ?thesis unfolding 1 2 3 by simp
qed

text \<open>
  The largest duration, 9223372036.854775807 seconds: rounded to whole seconds it is
  9223372037, and the header value has 9223372036.
\<close>

theorem BuildHeaderValues_saturation_counterexample:
  "BuildHeaderValues (noOptions\<lparr>MaxAge := maxDuration\<rparr>) = ''max-age=9223372036''
   \<and> sint maxDuration = 9223372036854775807
   \<and> wholeSeconds maxDuration = 9223372037
   \<and> joinWith '', '' (directives wholeSeconds (noOptions\<lparr>MaxAge := maxDuration\<rparr>)) = ''max-age=9223372037''"
proof -
  have m: "maxDuration \<noteq> 0"
  proof
    assume "maxDuration = 0"
    then have "sint maxDuration = 0" by simp
    with sint_maxDuration show False by simp
  qed
  have "BuildHeaderValues (noOptions\<lparr>MaxAge := maxDuration\<rparr>) = ''max-age=9223372036''"
    unfolding BuildHeaderValues_join using m
    by (simp add: noOptions_def directive_eval sint_maxDuration)
  moreover have "joinWith '', '' (directives wholeSeconds (noOptions\<lparr>MaxAge := maxDuration\<rparr>)) = ''max-age=9223372037''"
    using m by (simp add: noOptions_def directive_eval sint_maxDuration)
  moreover have "wholeSeconds maxDuration = 9223372037"
    by (simp add: wholeSeconds_def sint_maxDuration)
  ultimately show ?thesis by (simp add: sint_maxDuration)
qed

lemma roundedSeconds_small:
  assumes "- 500000000 < sint d" "sint d < 500000000"
  shows "roundedSeconds d = 0"
  using assms by (simp add: roundedSeconds_def wholeSeconds_def)

lemma formatInt_0: "formatInt 0 = ''0''"
  by (simp add: formatInt_def decimal.simps digitChar_def)

text \<open>
  C9. A \<open>MaxAge\<close> (or \<open>SMaxAge\<close>) that is not zero and is less than half a second in
  absolute value is still emitted, as the token \<open>max-age=0\<close> (or \<open>s-max-age=0\<close>) at its
  place in the header value: the test for leaving a directive out is on the duration,
  not on its rounded seconds.
\<close>

theorem sub_half_second_age_emits_zero:
  "(MaxAge t \<noteq> 0 \<and> - 500000000 < sint (MaxAge t) \<and> sint (MaxAge t) < 500000000 \<longrightarrow>
      formatInt (secondsInt64 (Round (MaxAge t) Second)) = ''0''
      \<and> BuildHeaderValues t =
          joinWith '', '' (accessDirective t @ [''max-age=0'']
            @ ageDirective roundedSeconds ''s-max-age'' (SMaxAge t) @ flagDirectives t))
   \<and> (SMaxAge t \<noteq> 0 \<and> - 500000000 < sint (SMaxAge t) \<and> sint (SMaxAge t) < 500000000 \<longrightarrow>
      formatInt (secondsInt64 (Round (SMaxAge t) Second)) = ''0''
      \<and> BuildHeaderValues t =
          joinWith '', '' (accessDirective t @ ageDirective roundedSeconds ''max-age'' (MaxAge t)
            @ [''s-max-age=0''] @ flagDirectives t))"
proof (intro conjI impI)
  assume h: "MaxAge t \<noteq> 0 \<and> - 500000000 < sint (MaxAge t) \<and> sint (MaxAge t) < 500000000"
  then have z: "roundedSeconds (MaxAge t) = 0" by (simp add: roundedSeconds_small)
  then show "formatInt (secondsInt64 (Round (MaxAge t) Second)) = ''0''"
    by (simp only: secondsInt64_Round formatInt_0)
  from h z have "ageDirective roundedSeconds ''max-age'' (MaxAge t) = [''max-age=0'']"
    by (simp add: ageDirective_def formatInt_0)
  then show "BuildHeaderValues t =
      joinWith '', '' (accessDirective t @ [''max-age=0'']
        @ ageDirective roundedSeconds ''s-max-age'' (SMaxAge t) @ flagDirectives t)"
    by (simp only: BuildHeaderValues_join directives_def)
next
  assume h: "SMaxAge t \<noteq> 0 \<and> - 500000000 < sint (SMaxAge t) \<and> sint (SMaxAge t) < 500000000"
  then have z: "roundedSeconds (SMaxAge t) = 0" by (simp add: roundedSeconds_small)
  then show "formatInt (secondsInt64 (Round (SMaxAge t) Second)) = ''0''"
    by (simp only: secondsInt64_Round formatInt_0)
  from h z have "ageDirective roundedSeconds ''s-max-age'' (SMaxAge t) = [''s-max-age=0'']"
    by (simp add: ageDirective_def formatInt_0)
  then show "BuildHeaderValues t =
      joinWith '', '' (accessDirective t @ ageDirective roundedSeconds ''max-age'' (MaxAge t)
        @ [''s-max-age=0''] @ flagDirectives t)"
    by (simp only: BuildHeaderValues_join directives_def)
qed

text \<open>Durations of 499999999, -1 and 1 nanoseconds.\<close>

theorem sub_half_second_age_emits_zero_witness:
  "BuildHeaderValues (noOptions\<lparr>MaxAge := 499999999, SMaxAge := - 1\<rparr>) = ''max-age=0, s-max-age=0''
   \<and> BuildHeaderValues (noOptions\<lparr>MaxAge := 1\<rparr>) = ''max-age=0''"
proof -
  let ?t = "noOptions\<lparr>MaxAge := 499999999, SMaxAge := - 1\<rparr>"
  let ?u = "noOptions\<lparr>MaxAge := 1\<rparr>"
  have a: "MaxAge ?t \<noteq> 0 \<and> - 500000000 < sint (MaxAge ?t) \<and> sint (MaxAge ?t) < 500000000"
    by simp
  have b: "SMaxAge ?t \<noteq> 0 \<and> - 500000000 < sint (SMaxAge ?t) \<and> sint (SMaxAge ?t) < 500000000"
    by simp
  have c: "MaxAge ?u \<noteq> 0 \<and> - 500000000 < sint (MaxAge ?u) \<and> sint (MaxAge ?u) < 500000000"
    by simp
  note main = sub_half_second_age_emits_zero
  have 1: "BuildHeaderValues ?t =
      joinWith '', '' (accessDirective ?t @ [''max-age=0'']
        @ ageDirective roundedSeconds ''s-max-age'' (SMaxAge ?t) @ flagDirectives ?t)"
    by (rule main [THEN conjunct1, THEN mp, OF a, THEN conjunct2])
  have 2: "formatInt (secondsInt64 (Round (SMaxAge ?t) Second)) = ''0''"
    by (rule main [THEN conjunct2, THEN mp, OF b, THEN conjunct1])
  have 3: "BuildHeaderValues ?u =
      joinWith '', '' (accessDirective ?u @ [''max-age=0'']
        @ ageDirective roundedSeconds ''s-max-age'' (SMaxAge ?u) @ flagDirectives ?u)"
    by (rule main [THEN conjunct1, THEN mp, OF c, THEN conjunct2])
  have s: "ageDirective roundedSeconds ''s-max-age'' (SMaxAge ?t) = [''s-max-age=0'']"
    using 2 by (simp add: ageDirective_def secondsInt64_Round)
  show ?thesis
    unfolding 1 3 s
    by (simp add: noOptions_def accessDirective_def ageDirective_def flagDirectives_def flag_def)
qed

end
